theory Spec2Isabelle
  imports Main "HOL-Library.Word" "HOL-Library.AList"
begin

section \<open>Snippet normalisation (\<^verbatim>\<open>processArticle\<close>, api module)\<close>

text \<open>
  A JavaScript string is a sequence of UTF-16 code units. The snippet is the one string
  whose characters the code inspects (through two regular expressions), so it is
  modelled as a list of 16-bit words. Identifiers, slugs and titles are only ever
  compared with \<^verbatim>\<open>===\<close> and are modelled as \<^typ>\<open>string\<close>.
\<close>

type_synonym code_unit = "16 word"
type_synonym jsstring = "code_unit list"

text \<open>
  The class \<^verbatim>\<open>\s\<close> of an ECMAScript regular expression without the unicode flag:
  WhiteSpace and LineTerminator code points (tab, LF, VT, FF, CR, space, NBSP, U+1680,
  U+2000..U+200A, U+2028, U+2029, U+202F, U+205F, U+3000, U+FEFF).
\<close>

definition is_space :: "code_unit \<Rightarrow> bool" where
  "is_space c \<longleftrightarrow>
     c \<in> set [0x09, 0x0A, 0x0B, 0x0C, 0x0D, 0x20, 0xA0, 0x1680,
               0x2000, 0x2001, 0x2002, 0x2003, 0x2004, 0x2005, 0x2006, 0x2007,
               0x2008, 0x2009, 0x200A, 0x2028, 0x2029, 0x202F, 0x205F, 0x3000, 0xFEFF]"

text \<open>The class \<^verbatim>\<open>[^\s\\]\<close> of \<^verbatim>\<open>longWordRegex\<close>: neither whitespace nor a backslash.\<close>

definition is_word_unit :: "code_unit \<Rightarrow> bool" where
  "is_word_unit c \<longleftrightarrow> \<not> is_space c \<and> c \<noteq> 0x5C"

text \<open>
  \<^verbatim>\<open>s.replace(/(\t|\s)+/g, " ")\<close>: scanning from the left, every maximal run of
  whitespace is replaced by one space (U+0020).
\<close>

function whitespaceReplace :: "jsstring \<Rightarrow> jsstring" where
  "whitespaceReplace [] = []"
| "whitespaceReplace (c # cs) =
     (if is_space c then 0x20 # whitespaceReplace (dropWhile is_space cs)
      else c # whitespaceReplace cs)"
  by pat_completeness auto
termination
  by (relation "measure length") (auto simp: length_dropWhile_le le_imp_less_Suc)

text \<open>The replacement text \<^verbatim>\<open>&shy;\<close> of \<^verbatim>\<open>"$1&shy;"\<close>, as code units.\<close>

definition shy :: jsstring where
  "shy = [0x26, 0x73, 0x68, 0x79, 0x3B]"

text \<open>
  \<^verbatim>\<open>longWordRegex = /([^\s\\]{16})/gm\<close> matches at a position when the next 16 code
  units all belong to the class.
\<close>

definition longWordMatch :: "jsstring \<Rightarrow> bool" where
  "longWordMatch s \<longleftrightarrow> 16 \<le> length s \<and> list_all is_word_unit (take 16 s)"

text \<open>
  \<^verbatim>\<open>s.replace(longWordRegex, "$1&shy;")\<close>: at each position, from the left, a match is
  copied followed by the marker and the scan resumes after the 16 matched units;
  otherwise one unit is copied and the scan moves on by one.
\<close>

function longWordReplace :: "jsstring \<Rightarrow> jsstring" where
  "longWordReplace s =
     (if longWordMatch s then take 16 s @ shy @ longWordReplace (drop 16 s)
      else (case s of [] \<Rightarrow> [] | c # cs \<Rightarrow> c # longWordReplace cs))"
  by pat_completeness auto
termination
  by (relation "measure length") (auto simp: longWordMatch_def)

text \<open>The two replacements of lines 25--27, in the order the source chains them.\<close>

definition normalizeSnippet :: "jsstring \<Rightarrow> jsstring" where
  "normalizeSnippet s = longWordReplace (whitespaceReplace s)"

text \<open>A string has a long word when \<^verbatim>\<open>longWordRegex\<close> matches at some position of it.\<close>

fun hasLongWord :: "jsstring \<Rightarrow> bool" where
  "hasLongWord [] = False"
| "hasLongWord (c # cs) = (longWordMatch (c # cs) \<or> hasLongWord cs)"


text \<open>The number of code units of a string that are not whitespace.\<close>

definition non_space_count :: "jsstring \<Rightarrow> nat" where
  "non_space_count s = length (filter (\<lambda>c. \<not> is_space c) s)"

section \<open>The notification store (\<^verbatim>\<open>store.tsx\<close>)\<close>

datatype theme = Day | Night

text \<open>
  The renderable payload of a notification: a \<^verbatim>\<open>span\<close> whose inner HTML is a given
  string, or an element supplied by the caller (opaque here), with the React key.
\<close>

datatype jsx = Span_html string | Custom_element string

record element =
  node :: jsx
  key :: "nat option"

text \<open>
  The grouping key is of type \<^verbatim>\<open>any\<close> and is compared with \<^verbatim>\<open>!==\<close>:
  \<^verbatim>\<open>null\<close>, \<^verbatim>\<open>undefined\<close>, or a value the caller chose.
\<close>

datatype context_value = Context_null | Context_undefined | Context_key string

text \<open>
  Modelled from the spec: the interface \<^verbatim>\<open>Notification\<close> is declared in a module
  (\<^verbatim>\<open>notificationInterface\<close>) that is not among the sources. Its fields are those the
  spec's data model lists and \<^verbatim>\<open>createNotification\<close> fills: \<^verbatim>\<open>id\<close>, \<^verbatim>\<open>data\<close>,
  \<^verbatim>\<open>level\<close>, \<^verbatim>\<open>time\<close> (a number of milliseconds, or \<^verbatim>\<open>null\<close> for no automatic
  removal), \<^verbatim>\<open>closable\<close> and \<^verbatim>\<open>context\<close>. The fields \<^verbatim>\<open>id\<close> and \<^verbatim>\<open>context\<close>
  are named \<open>n_id\<close> and \<open>n_context\<close> here.
\<close>

record Notification =
  n_id :: nat
  data :: element
  level :: string
  time :: "nat option"
  closable :: bool
  n_context :: context_value

text \<open>
  \<^verbatim>\<open>Partial<Notification>\<close>: every field may be absent (\<open>None\<close>). \<^verbatim>\<open>data\<close> is a
  string of HTML or an element. An \<^verbatim>\<open>id\<close> given by the caller is overwritten in line
  84 and is left out.
\<close>

datatype payload = Html string | Jsx element

record PartialNotification =
  p_data :: "payload option"
  p_time :: "nat option option"
  p_level :: "string option"
  p_closable :: "bool option"
  p_context :: "context_value option"

datatype js_error = TypeError | ArticleParseError | Cant_find_position

text \<open>
  \<^verbatim>\<open>createNotification\<close> (lines 70--97), with the module counter \<^verbatim>\<open>notificationId\<close>
  passed in and returned. A string becomes a record with \<^verbatim>\<open>data\<close>, \<^verbatim>\<open>time\<close> and
  \<^verbatim>\<open>level\<close>; a string \<^verbatim>\<open>data\<close> is wrapped in a span. The counter is read and
  incremented, the defaults are merged under the given fields by \<^verbatim>\<open>Object.assign\<close>,
  and the key is written into \<^verbatim>\<open>data\<close>: with no \<^verbatim>\<open>data\<close> that assignment raises
  a TypeError (the counter has been incremented by then).
\<close>

definition span :: "string \<Rightarrow> element" where
  "span html = \<lparr>node = Span_html html, key = None\<rparr>"

definition createNotification ::
  "string + PartialNotification \<Rightarrow> nat \<Rightarrow> nat \<times> (js_error + Notification)" where
  "createNotification notification notificationId =
     (let p = (case notification of
                 Inl s \<Rightarrow> \<lparr>p_data = Some (Jsx (span s)), p_time = Some (Some 3000),
                           p_level = Some ''default'', p_closable = None, p_context = None\<rparr>
               | Inr q \<Rightarrow> (case p_data q of
                            Some (Html h) \<Rightarrow> q\<lparr>p_data := Some (Jsx (span h))\<rparr>
                          | _ \<Rightarrow> q));
          ident = notificationId
      in (notificationId + 1,
          case p_data p of
            Some (Jsx e) \<Rightarrow>
              Inr \<lparr>n_id = ident,
                   data = e\<lparr>key := Some ident\<rparr>,
                   level = (case p_level p of None \<Rightarrow> ''default'' | Some l \<Rightarrow> l),
                   time = (case p_time p of None \<Rightarrow> Some 3000 | Some t \<Rightarrow> t),
                   closable = (case p_closable p of None \<Rightarrow> True | Some c \<Rightarrow> c),
                   n_context = (case p_context p of None \<Rightarrow> Context_null | Some c \<Rightarrow> c)\<rparr>
          | _ \<Rightarrow> Inl TypeError))"

record State =
  issueNumber :: "nat option"
  isAdmin :: bool
  notifications :: "Notification list"
  activeId :: "string option"
  theme :: theme

record PartialState =
  s_issueNumber :: "nat option option"
  s_isAdmin :: "bool option"
  s_notifications :: "Notification list option"
  s_activeId :: "string option option"
  s_theme :: "theme option"

definition initialState :: State where
  "initialState = \<lparr>issueNumber = None, isAdmin = False, notifications = [],
                    activeId = None, theme = Day\<rparr>"

definition noChange :: PartialState where
  "noChange = \<lparr>s_issueNumber = None, s_isAdmin = None, s_notifications = None,
                s_activeId = None, s_theme = None\<rparr>"

datatype action =
    SetState PartialState
  | AddNotification Notification
  | RemoveNotification Notification
  | Other_action

text \<open>
  \<^verbatim>\<open>Array.prototype.indexOf\<close>: the first index holding the element, or \<open>-1\<close>. The
  source compares object references; every notification the module creates has its own
  \<^verbatim>\<open>id\<close>, so equality of records stands for identity.
\<close>

fun indexOf :: "'a list \<Rightarrow> 'a \<Rightarrow> int" where
  "indexOf [] x = - 1"
| "indexOf (y # ys) x =
     (if y = x then 0 else (let i = indexOf ys x in if i < 0 then - 1 else i + 1))"

fun rootReducer :: "State \<Rightarrow> action \<Rightarrow> State" where
  "rootReducer state (SetState p) =
     \<lparr>issueNumber = (case s_issueNumber p of None \<Rightarrow> issueNumber state | Some v \<Rightarrow> v),
      isAdmin = (case s_isAdmin p of None \<Rightarrow> isAdmin state | Some v \<Rightarrow> v),
      notifications = (case s_notifications p of None \<Rightarrow> notifications state | Some v \<Rightarrow> v),
      activeId = (case s_activeId p of None \<Rightarrow> activeId state | Some v \<Rightarrow> v),
      theme = (case s_theme p of None \<Rightarrow> theme state | Some v \<Rightarrow> v)\<rparr>"
| "rootReducer state (AddNotification notification) =
     state\<lparr>notifications := notifications state @ [notification]\<rparr>"
| "rootReducer state (RemoveNotification notification) =
     (let index = indexOf (notifications state) notification
      in if index < 0 then state
         else state\<lparr>notifications :=
                take (nat index) (notifications state) @
                drop (nat (index + 1)) (notifications state)\<rparr>)"
| "rootReducer state Other_action = state"

text \<open>
  The module's state: the redux store, the counter \<^verbatim>\<open>notificationId\<close>, and the
  callbacks handed to \<^verbatim>\<open>setTimeout\<close> that have not fired yet (delay and the
  notification each will remove).
\<close>

record Store =
  state :: State
  notificationId :: nat
  timers :: "(nat \<times> Notification) list"

definition dispatch :: "action \<Rightarrow> Store \<Rightarrow> Store" where
  "dispatch a w = w\<lparr>state := rootReducer (state w) a\<rparr>"

definition setState :: "PartialState \<Rightarrow> Store \<Rightarrow> Store" where
  "setState p w = dispatch (SetState p) w"

text \<open>
  The argument of \<^verbatim>\<open>addNotification\<close>: a string, a partial record, or a producer
  function. The producer is called once with the remover and its result goes through
  \<^verbatim>\<open>createNotification\<close>; it is modelled by the partial record it returns.
\<close>

datatype notification_arg =
    Text string
  | Partial PartialNotification
  | Deferred PartialNotification

definition addNotification :: "notification_arg \<Rightarrow> Store \<Rightarrow> Store \<times> (js_error + Notification)" where
  "addNotification notification w =
     (case createNotification
             (case notification of Text s \<Rightarrow> Inl s | Partial p \<Rightarrow> Inr p | Deferred p \<Rightarrow> Inr p)
             (notificationId w) of
        (next_id, Inl e) \<Rightarrow> (w\<lparr>notificationId := next_id\<rparr>, Inl e)
      | (next_id, Inr n) \<Rightarrow>
          (let w1 = dispatch (AddNotification n) (w\<lparr>notificationId := next_id\<rparr>);
               w2 = (case time n of
                       None \<Rightarrow> w1
                     | Some t \<Rightarrow> w1\<lparr>timers := timers w1 @ [(t, n)]\<rparr>)
           in (w2, Inr n)))"

text \<open>A pending timer fires: its callback dispatches the removal of its notification.\<close>

definition timerFires :: "nat \<times> Notification \<Rightarrow> Store \<Rightarrow> Store" where
  "timerFires t w =
     dispatch (RemoveNotification (snd t)) (w\<lparr>timers := remove1 t (timers w)\<rparr>)"

definition removeNotification :: "Notification \<Rightarrow> Store \<Rightarrow> Store" where
  "removeNotification notification w = dispatch (RemoveNotification notification) w"

definition removeNotificationsWithContext :: "context_value \<Rightarrow> Store \<Rightarrow> Store" where
  "removeNotificationsWithContext c w =
     setState (noChange\<lparr>s_notifications :=
                 Some (filter (\<lambda>n. n_context n \<noteq> c) (notifications (state w)))\<rparr>) w"


text \<open>The context field a caller of \<^verbatim>\<open>addNotification\<close> supplied, if any.\<close>

definition given_context :: "notification_arg \<Rightarrow> context_value option" where
  "given_context notification =
     (case notification of Text s \<Rightarrow> None | Partial p \<Rightarrow> p_context p | Deferred p \<Rightarrow> p_context p)"

text \<open>
  The calls of the module's notification functions and the firing of timers, and the
  store after a sequence of them. \<open>queue_fresh\<close> is what they keep true of the queue:
  ids occur once and lie below the counter.
\<close>

datatype store_call =
    Call_addNotification notification_arg
  | Call_removeNotification Notification
  | Call_removeNotificationsWithContext context_value
  | Timer_fires "nat \<times> Notification"

fun run_store_call :: "store_call \<Rightarrow> Store \<Rightarrow> Store" where
  "run_store_call (Call_addNotification notification) w = fst (addNotification notification w)"
| "run_store_call (Call_removeNotification notification) w = removeNotification notification w"
| "run_store_call (Call_removeNotificationsWithContext c) w = removeNotificationsWithContext c w"
| "run_store_call (Timer_fires t) w = timerFires t w"

fun run_store_calls :: "store_call list \<Rightarrow> Store \<Rightarrow> Store" where
  "run_store_calls [] w = w"
| "run_store_calls (c # cs) w = run_store_calls cs (run_store_call c w)"

definition queue_fresh :: "Store \<Rightarrow> bool" where
  "queue_fresh w \<longleftrightarrow>
     distinct (map n_id (notifications (state w))) \<and>
     (\<forall>m \<in> set (notifications (state w)). n_id m < notificationId w)"

text \<open>A store whose queue holds the given notifications; \<open>store_of []\<close> is the module at load.\<close>

definition store_of :: "Notification list \<Rightarrow> Store" where
  "store_of ns = \<lparr>state = initialState\<lparr>notifications := ns\<rparr>, notificationId = length ns,
                  timers = []\<rparr>"

section \<open>The request gateway (\<^verbatim>\<open>request\<close>, api module)\<close>

datatype http_method = GET | POST | PUT | DELETE

text \<open>
  A JavaScript number is a double. The model has the integers a double holds exactly
  in a contiguous range, those of magnitude at most \<open>2\<^sup>5\<^sup>3\<close>, as \<open>Exact n\<close>, and one
  further value \<open>Inexact\<close> for every other number (a fraction, NaN, an infinity, a
  larger magnitude). \<^verbatim>\<open>Math.max\<close> and the subtraction of two exact integers are what
  they are on the integers as long as the result stays in that range; in every other
  case the model does not say which number results (\<open>Inexact\<close>).
\<close>

datatype number = Exact int | Inexact

definition exact :: "int \<Rightarrow> number" where
  "exact n = (if \<bar>n\<bar> \<le> 2 ^ 53 then Exact n else Inexact)"

fun Math_max :: "number \<Rightarrow> number \<Rightarrow> number" where
  "Math_max (Exact a) (Exact b) = exact (max a b)"
| "Math_max a b = Inexact"

fun number_minus :: "number \<Rightarrow> number \<Rightarrow> number" where
  "number_minus (Exact a) (Exact b) = exact (a - b)"
| "number_minus a b = Inexact"

text \<open>
  The endpoint strings the module builds, as a datatype: the constructor is the path
  pattern and its arguments are the values spliced into it.
\<close>

datatype endpoint =
    News_reload
  | News
  | News_manual
  | News_id string
  | News_slug string
  | News_active_wait nat
  | News_archive_id string
  | News_active_put string
  | News_delete string
  | News_undelete string
  | News_moveid string number
  | News_positions
  | News_geek string
  | News_nogeek string

text \<open>The JSON bodies of the two POST requests.\<close>

record add_body =
  b_link :: string
  b_title :: "string option"
  b_snippet :: "string option"
  b_content :: "string option"
  b_position :: "int option"

text \<open>\<^verbatim>\<open>Partial<Article>\<close> as \<^verbatim>\<open>updateArticle\<close> receives it: the fields an editor sends.\<close>

record article_patch =
  u_id :: "string option"
  u_title :: "string option"
  u_snippet :: "string option"
  u_content :: "string option"

datatype request_body = Add_body add_body | Update_body article_patch

text \<open>A call \<^verbatim>\<open>request(endpoint, options)\<close>; the method is GET when the options name none.\<close>

record request_call =
  endpoint :: endpoint
  req_method :: http_method
  headers :: "(string \<times> string) list"
  body :: "request_body option"

definition get_call :: "endpoint \<Rightarrow> request_call" where
  "get_call e = \<lparr>endpoint = e, req_method = GET, headers = [], body = None\<rparr>"

definition put_call :: "endpoint \<Rightarrow> request_call" where
  "put_call e = \<lparr>endpoint = e, req_method = PUT, headers = [], body = None\<rparr>"

definition delete_call :: "endpoint \<Rightarrow> request_call" where
  "delete_call e = \<lparr>endpoint = e, req_method = DELETE, headers = [], body = None\<rparr>"

definition post_call :: "endpoint \<Rightarrow> request_body \<Rightarrow> request_call" where
  "post_call e b = \<lparr>endpoint = e, req_method = POST,
                     headers = [(''Content-Type'', ''application/json'')], body = Some b\<rparr>"

text \<open>
  Lines 112--129: what \<^verbatim>\<open>request\<close> hands to \<^verbatim>\<open>fetch\<close>. The stored credential
  (\<^verbatim>\<open>localStorage\<close> key \<^verbatim>\<open>rt-news.auth\<close>; an empty string is falsy) adds an
  Authorization header, and the current time is appended as the \<^verbatim>\<open>timestamp\<close> query.
\<close>

record fetch_args =
  f_endpoint :: endpoint
  f_timestamp :: nat
  f_method :: http_method
  f_headers :: "(string \<times> string) list"
  f_body :: "request_body option"
  f_mode :: string
  f_credentials :: string

definition request_fetch :: "string option \<Rightarrow> nat \<Rightarrow> request_call \<Rightarrow> fetch_args" where
  "request_fetch auth now c =
     \<lparr>f_endpoint = endpoint c, f_timestamp = now, f_method = req_method c,
      f_headers = (case auth of
                     None \<Rightarrow> headers c
                   | Some a \<Rightarrow> if a = [] then headers c
                              else headers c @ [(''Authorization'', ''Basic '' @ a)]),
      f_body = body c, f_mode = ''cors'', f_credentials = ''omit''\<rparr>"

text \<open>
  What \<^verbatim>\<open>fetch\<close> gives back: a failure of the transport, or a response with a status
  and a body. \<^verbatim>\<open>json()\<close> on the body fails (empty or unparsable), yields
  \<^verbatim>\<open>null\<close>, or yields a value of the type \<open>'b\<close> the endpoint answers with.
\<close>

datatype 'b json = Unparsable | Json_null | Json 'b

record 'b response =
  status :: nat
  json :: "'b json"

datatype 'b fetch_result = Fetch_failed | Fetch_response "'b response"

text \<open>What a promise of the module is rejected with.\<close>

datatype 'b rejection =
    Raw_response "'b response"
  | Network_failure
  | Exception js_error

text \<open>
  Lines 130--133: a status of 400 or more throws the response itself; otherwise the
  parsed body is the result, and a failure of \<^verbatim>\<open>json()\<close> is caught and replaced by
  \<^verbatim>\<open>null\<close> (\<open>None\<close>).
\<close>

fun request_then :: "'b fetch_result \<Rightarrow> 'b rejection + 'b option" where
  "request_then Fetch_failed = Inl Network_failure"
| "request_then (Fetch_response req) =
     (if status req \<ge> 400 then Inl (Raw_response req)
      else Inr (case json req of Unparsable \<Rightarrow> None | Json_null \<Rightarrow> None | Json v \<Rightarrow> Some v))"

section \<open>Articles and the article cache (api module)\<close>

text \<open>\<^verbatim>\<open>Date.parse\<close> yields a number of milliseconds or NaN.\<close>

datatype timestamp = NaN | Millis int

text \<open>
  The two library calls of \<^verbatim>\<open>processArticle\<close>, as parameters: \<^verbatim>\<open>Date.parse\<close>, and
  the hostname of \<^verbatim>\<open>new URL(s)\<close> (\<open>None\<close> when the constructor throws).
\<close>

record platform =
  Date_parse :: "string \<Rightarrow> timestamp"
  URL_hostname :: "string \<Rightarrow> string option"

text \<open>
  Modelled from the spec: the interfaces \<^verbatim>\<open>ArticleInit\<close> and \<^verbatim>\<open>Article\<close> are declared
  in a module (\<^verbatim>\<open>articleInterface\<close>) that is not among the sources. The record has
  the fields the api module reads or writes, with the types the spec's data model gives
  them. An optional field is \<open>None\<close> when the object has no such own property; a raw
  article of the server has no \<^verbatim>\<open>parsed*\<close> field. The field \<^verbatim>\<open>id\<close> is named \<open>a_id\<close>
  here.
\<close>

record Article =
  a_id :: string
  slug :: string
  title :: string
  snippet :: "jsstring option"
  ts :: "string option"
  ats :: "string option"
  activets :: "string option"
  domain :: string
  origlink :: string
  parsedts :: "timestamp option"
  parsedats :: "timestamp option"
  parsedactivets :: "timestamp option"

datatype raw_article = Not_an_object | Raw Article

fun processArticle :: "platform \<Rightarrow> raw_article \<Rightarrow> js_error + Article" where
  "processArticle pf Not_an_object = Inl ArticleParseError"
| "processArticle pf (Raw article) =
     (let output = article;
          output = (case snippet output of
                      None \<Rightarrow> output
                    | Some s \<Rightarrow> output\<lparr>snippet := Some (normalizeSnippet s)\<rparr>);
          output = (case ts output of
                      None \<Rightarrow> output
                    | Some t \<Rightarrow> output\<lparr>parsedts := Some (Date_parse pf t)\<rparr>);
          output = (case ats output of
                      None \<Rightarrow> output
                    | Some t \<Rightarrow> output\<lparr>parsedats := Some (Date_parse pf t)\<rparr>);
          output = (case activets output of
                      None \<Rightarrow> output
                    | Some t \<Rightarrow> output\<lparr>parsedactivets := Some (Date_parse pf t)\<rparr>);
          output = (if domain output = []
                    then (case URL_hostname pf (origlink output) of
                            None \<Rightarrow> output
                          | Some h \<Rightarrow> output\<lparr>domain := h\<rparr>)
                    else output)
      in Inr output)"

text \<open>
  The two module-level maps. A JavaScript \<^verbatim>\<open>Map\<close> keeps its entries in insertion
  order, \<^verbatim>\<open>set\<close> on a present key replaces the value in place and on an absent key
  appends, \<^verbatim>\<open>delete\<close> removes the key: an association list with
  \<^const>\<open>AList.update\<close>, \<^const>\<open>AList.delete\<close> and \<^const>\<open>map_of\<close>.
\<close>

record cache_state =
  articlesCache :: "(string \<times> Article) list"
  articlesIdSlugMap :: "(string \<times> string) list"

definition empty_cache :: cache_state where
  "empty_cache = \<lparr>articlesCache = [], articlesIdSlugMap = []\<rparr>"

text \<open>
  The body of a response to \<^verbatim>\<open>/news/id/...\<close> or \<^verbatim>\<open>/news/slug/...\<close>, when it is a
  value other than \<^verbatim>\<open>null\<close>: a value with no own property \<^verbatim>\<open>id\<close>, or an article.
\<close>

datatype article_body = Without_id | With_id Article

text \<open>What a lookup resolves to: an article, \<^verbatim>\<open>null\<close>, or \<^verbatim>\<open>undefined\<close>.\<close>

datatype lookup = Found Article | Null | Undefined

text \<open>
  Each operation takes the cache and the outcome of the \<^verbatim>\<open>fetch\<close> it may make, and
  returns the cache, the calls of \<^verbatim>\<open>request\<close> it issued, in order, and what its
  promise settles to (\<open>Inl\<close>: rejected).
\<close>

type_synonym 'r article_result =
  "cache_state \<times> request_call list \<times> (article_body rejection + 'r)"

text \<open>
  \<^verbatim>\<open>getArticle\<close> (lines 179--194). On a hit the result is whatever
  \<^verbatim>\<open>articlesCache.get\<close> returns for the indexed slug. On a miss the response is
  awaited; \<^verbatim>\<open>hasOwnProperty\<close> on \<^verbatim>\<open>null\<close> raises a TypeError; the article is stored
  under \<^verbatim>\<open>article.slug\<close>.
\<close>

definition getArticle ::
  "platform \<Rightarrow> string \<Rightarrow> article_body fetch_result \<Rightarrow> cache_state \<Rightarrow> lookup article_result" where
  "getArticle pf ident fr w =
     (case map_of (articlesIdSlugMap w) ident of
        Some s \<Rightarrow>
          (w, [], Inr (case map_of (articlesCache w) s of None \<Rightarrow> Undefined | Some a \<Rightarrow> Found a))
      | None \<Rightarrow>
          (let call = get_call (News_id ident) in
           case request_then fr of
             Inl e \<Rightarrow> (w, [call], Inl e)
           | Inr None \<Rightarrow> (w, [call], Inl (Exception TypeError))
           | Inr (Some Without_id) \<Rightarrow> (w, [call], Inr Null)
           | Inr (Some (With_id articleInit)) \<Rightarrow>
               (case processArticle pf (Raw articleInit) of
                  Inl e \<Rightarrow> (w, [call], Inl (Exception e))
                | Inr article \<Rightarrow>
                    (w\<lparr>articlesCache :=
                         AList.update (slug article) article (articlesCache w),
                       articlesIdSlugMap :=
                         AList.update (a_id article) (slug article) (articlesIdSlugMap w)\<rparr>,
                     [call], Inr (Found article)))))"

text \<open>
  \<^verbatim>\<open>getArticleBySlug\<close> (lines 199--210): the hit is decided on the slug map, and the
  article is stored under the slug that was asked for.
\<close>

definition getArticleBySlug ::
  "platform \<Rightarrow> string \<Rightarrow> article_body fetch_result \<Rightarrow> cache_state \<Rightarrow> lookup article_result" where
  "getArticleBySlug pf slug_arg fr w =
     (case map_of (articlesCache w) slug_arg of
        Some a \<Rightarrow> (w, [], Inr (Found a))
      | None \<Rightarrow>
          (let call = get_call (News_slug slug_arg) in
           case request_then fr of
             Inl e \<Rightarrow> (w, [call], Inl e)
           | Inr None \<Rightarrow> (w, [call], Inl (Exception TypeError))
           | Inr (Some Without_id) \<Rightarrow> (w, [call], Inr Null)
           | Inr (Some (With_id articleInit)) \<Rightarrow>
               (case processArticle pf (Raw articleInit) of
                  Inl e \<Rightarrow> (w, [call], Inl (Exception e))
                | Inr article \<Rightarrow>
                    (w\<lparr>articlesCache :=
                         AList.update slug_arg article (articlesCache w),
                       articlesIdSlugMap :=
                         AList.update (a_id article) (slug article) (articlesIdSlugMap w)\<rparr>,
                     [call], Inr (Found article)))))"

text \<open>
  The loop of lines 270--275 and 285--290 over \<^verbatim>\<open>articlesCache.entries()\<close>: an entry
  that matches is deleted from the slug map, and its article's id from the id map. The
  loop deletes only the entry it is visiting, so it visits the entries the map held
  when it started, in order.
\<close>

fun evictMatching ::
  "(Article \<Rightarrow> bool) \<Rightarrow> (string \<times> Article) list \<Rightarrow> cache_state \<Rightarrow> cache_state" where
  "evictMatching matches [] w = w"
| "evictMatching matches ((slug_key, article) # entries) w =
     evictMatching matches entries
       (if matches article
        then w\<lparr>articlesCache := AList.delete slug_key (articlesCache w),
               articlesIdSlugMap := AList.delete (a_id article) (articlesIdSlugMap w)\<rparr>
        else w)"

type_synonym 'b write_result =
  "cache_state \<times> request_call list \<times> ('b rejection + 'b option)"

text \<open>
  \<^verbatim>\<open>addArticle\<close> (lines 244--282). An empty string and the positions \<^verbatim>\<open>null\<close> and
  \<open>0\<close> are falsy.
\<close>

definition addArticle ::
  "string \<Rightarrow> string \<Rightarrow> string \<Rightarrow> string \<Rightarrow> int option \<Rightarrow> 'b fetch_result \<Rightarrow>
   cache_state \<Rightarrow> 'b write_result" where
  "addArticle link title_arg snippet_arg content position fr w =
     (let truthy = (\<lambda>p. case p of None \<Rightarrow> False | Some n \<Rightarrow> n \<noteq> 0);
          isManual = (title_arg \<noteq> [] \<or> snippet_arg \<noteq> [] \<or> content \<noteq> [] \<or> truthy position);
          request_body =
            \<lparr>b_link = link,
             b_title = (if title_arg \<noteq> [] then Some title_arg else None),
             b_snippet = (if snippet_arg \<noteq> [] then Some snippet_arg else None),
             b_content = (if content \<noteq> [] then Some content else None),
             b_position = (if truthy position then position else None)\<rparr>;
          url = (if isManual then News_manual else News);
          w' = evictMatching (\<lambda>article. title article = title_arg) (articlesCache w) w
      in (w', [post_call url (Add_body request_body)], request_then fr))"

text \<open>\<^verbatim>\<open>updateArticle\<close> (lines 284--300); \<^verbatim>\<open>updated.id\<close> may be absent.\<close>

definition updateArticle :: "article_patch \<Rightarrow> 'b fetch_result \<Rightarrow> cache_state \<Rightarrow> 'b write_result" where
  "updateArticle updated fr w =
     (let w' = evictMatching (\<lambda>article. Some (a_id article) = u_id updated) (articlesCache w) w
      in (w', [post_call News_manual (Update_body updated)], request_then fr))"

text \<open>The one-line mutations of lines 302--325 and 349--358.\<close>

definition archiveArticle :: "string \<Rightarrow> 'b fetch_result \<Rightarrow> cache_state \<Rightarrow> 'b write_result" where
  "archiveArticle ident fr w = (w, [put_call (News_archive_id ident)], request_then fr)"

definition activateArticle :: "string \<Rightarrow> 'b fetch_result \<Rightarrow> cache_state \<Rightarrow> 'b write_result" where
  "activateArticle ident fr w = (w, [put_call (News_active_put ident)], request_then fr)"

definition removeArticle :: "string \<Rightarrow> 'b fetch_result \<Rightarrow> cache_state \<Rightarrow> 'b write_result" where
  "removeArticle ident fr w = (w, [delete_call (News_delete ident)], request_then fr)"

definition restoreArticle :: "string \<Rightarrow> 'b fetch_result \<Rightarrow> cache_state \<Rightarrow> 'b write_result" where
  "restoreArticle ident fr w = (w, [put_call (News_undelete ident)], request_then fr)"

definition moveArticle :: "string \<Rightarrow> number \<Rightarrow> 'b fetch_result \<Rightarrow> cache_state \<Rightarrow> 'b write_result" where
  "moveArticle ident offset fr w = (w, [put_call (News_moveid ident offset)], request_then fr)"

definition makeArticleGeek :: "string \<Rightarrow> 'b fetch_result \<Rightarrow> cache_state \<Rightarrow> 'b write_result" where
  "makeArticleGeek ident fr w = (w, [put_call (News_geek ident)], request_then fr)"

definition makeArticleNotGeek :: "string \<Rightarrow> 'b fetch_result \<Rightarrow> cache_state \<Rightarrow> 'b write_result" where
  "makeArticleNotGeek ident fr w = (w, [put_call (News_nogeek ident)], request_then fr)"

text \<open>
  \<^verbatim>\<open>makeArticleFirst\<close> (lines 330--344). The position table is an object from ids to
  numbers (each key once), here an association list from ids to numbers. The function
  takes the outcomes of its two fetches; the second is consulted only if the move
  request is issued. \<^verbatim>\<open>reduce((c, x) => Math.max(c, x), 0)\<close> folds from the left,
  starting from \<open>0\<close>, and the offset is \<^verbatim>\<open>maxPos - pos\<close>.
\<close>

type_synonym positions = "(string \<times> number) list"

definition makeArticleFirst ::
  "string \<Rightarrow> positions fetch_result \<Rightarrow> positions fetch_result \<Rightarrow> cache_state \<Rightarrow>
   positions write_result" where
  "makeArticleFirst ident fr1 fr2 w =
     (let call1 = get_call News_positions in
      case request_then fr1 of
        Inl e \<Rightarrow> (w, [call1], Inl e)
      | Inr None \<Rightarrow> (w, [call1], Inl (Exception TypeError))
      | Inr (Some positions) \<Rightarrow>
          (case map_of positions ident of
             None \<Rightarrow> (w, [call1], Inl (Exception Cant_find_position))
           | Some pos \<Rightarrow>
               (let maxPos = foldl (\<lambda>c x. Math_max c x) (Exact 0) (map snd positions);
                    offset = number_minus maxPos pos
                in (w, [call1, put_call (News_moveid ident offset)], request_then fr2))))"

section \<open>The active-article poller (\<^verbatim>\<open>pollActiveArticle\<close>)\<close>

text \<open>The body of a long-poll answer that is not \<^verbatim>\<open>null\<close>: an object that may have an \<^verbatim>\<open>id\<close>.\<close>

datatype active_body = Active_body (active_id: "string option")

text \<open>
  What the loop does, in order: calls of \<^verbatim>\<open>request\<close>, lines written with
  \<^verbatim>\<open>console.error\<close>, and waits. Modelled from the spec: \<^verbatim>\<open>sleep\<close> comes from the
  utils module, which is not among the sources; it is taken as a wait of the given
  number of milliseconds that ends without failing.
\<close>

datatype event = Request request_call | Console_error string | Sleep nat

datatype 'a settled = Pending | Resolved 'a | Rejected "active_body rejection"

definition after_events :: "event list \<Rightarrow> event list \<times> 'a \<Rightarrow> event list \<times> 'a" where
  "after_events evs r = (evs @ fst r, snd r)"

text \<open>
  One pass through the \<^verbatim>\<open>try\<close> block (lines 229--232): \<open>Inl\<close> is what it throws,
  \<open>Inr (Some i)\<close> is \<^verbatim>\<open>return req.id\<close>, \<open>Inr None\<close> falls through to the next round.
\<close>

definition poll_try :: "active_body fetch_result \<Rightarrow> active_body rejection + string option" where
  "poll_try fr =
     (case request_then fr of
        Inl e \<Rightarrow> Inl e
      | Inr None \<Rightarrow> Inr None
      | Inr (Some req) \<Rightarrow> Inr (active_id req))"

text \<open>
  The loop of lines 226--238, run against the outcomes of its successive fetches. It has
  no exit but the \<^verbatim>\<open>return\<close>; when the list of outcomes is used up the call is still
  waiting for the request it has just issued (\<open>Pending\<close>). The \<^verbatim>\<open>catch\<close> block logs and
  awaits \<^verbatim>\<open>sleep(3000)\<close>.
\<close>

fun pollActiveArticle :: "nat \<Rightarrow> active_body fetch_result list \<Rightarrow> event list \<times> string settled" where
  "pollActiveArticle ms [] = ([Request (get_call (News_active_wait ms))], Pending)"
| "pollActiveArticle ms (fr # frs) =
     (case poll_try fr of
        Inr (Some i) \<Rightarrow> ([Request (get_call (News_active_wait ms))], Resolved i)
      | Inr None \<Rightarrow>
          after_events [Request (get_call (News_active_wait ms))] (pollActiveArticle ms frs)
      | Inl e \<Rightarrow>
          after_events
            [Request (get_call (News_active_wait ms)),
             Console_error ''Error while polling for active article'',
             Sleep 3000]
            (pollActiveArticle ms frs))"


text \<open>
  A round whose fetch does not end the loop (no \<^verbatim>\<open>return\<close>), and what such a round
  leaves in the trace: the request, and after a failure the log line and the cooldown.
\<close>

definition no_id :: "active_body fetch_result \<Rightarrow> bool" where
  "no_id fr \<longleftrightarrow> (case poll_try fr of Inr (Some i) \<Rightarrow> False | _ \<Rightarrow> True)"

definition round_events :: "nat \<Rightarrow> active_body fetch_result \<Rightarrow> event list" where
  "round_events ms fr =
     (case poll_try fr of
        Inl e \<Rightarrow> [Request (get_call (News_active_wait ms)),
                  Console_error ''Error while polling for active article'',
                  Sleep 3000]
      | Inr r \<Rightarrow> [Request (get_call (News_active_wait ms))])"

section \<open>The two maps of the cache as an index\<close>

text \<open>Every entry of the id map names a slug that the slug map holds.\<close>

definition index_closed :: "cache_state \<Rightarrow> bool" where
  "index_closed w \<longleftrightarrow>
     list_all (\<lambda>(ident, s). map_of (articlesCache w) s \<noteq> None) (articlesIdSlugMap w)"

text \<open>The article a response carries, if it is one that \<^verbatim>\<open>request\<close> resolves to an object with an id.\<close>

definition answer_article :: "article_body fetch_result \<Rightarrow> Article option" where
  "answer_article fr =
     (case request_then fr of Inr (Some (With_id articleInit)) \<Rightarrow> Some articleInit | _ \<Rightarrow> None)"

section \<open>Concrete inputs\<close>

definition text_notification :: Notification where
  "text_notification = \<lparr>n_id = 0, data = \<lparr>node = Span_html ''x'', key = Some 0\<rparr>,
     level = ''default'', time = Some 3000, closable = True, n_context = Context_null\<rparr>"

definition form_notification :: Notification where
  "form_notification = \<lparr>n_id = 1, data = \<lparr>node = Span_html ''saved'', key = Some 1\<rparr>,
     level = ''success'', time = None, closable = False, n_context = Context_key ''form''\<rparr>"

definition example_partial :: PartialNotification where
  "example_partial = \<lparr>p_data = Some (Html ''saved''), p_time = None, p_level = Some ''success'',
     p_closable = None, p_context = None\<rparr>"

definition example_notification :: Notification where
  "example_notification = \<lparr>n_id = 0, data = \<lparr>node = Span_html ''saved'', key = Some 0\<rparr>,
     level = ''success'', time = Some 3000, closable = True, n_context = Context_null\<rparr>"

definition platform0 :: platform where
  "platform0 = \<lparr>Date_parse = (\<lambda>s. NaN), URL_hostname = (\<lambda>s. None)\<rparr>"

definition article_a :: Article where
  "article_a = \<lparr>a_id = ''1'', slug = ''a'', title = ''A'', snippet = None, ts = None, ats = None,
     activets = None, domain = ''ex.com'', origlink = ''https://ex.com/a'',
     parsedts = None, parsedats = None, parsedactivets = None\<rparr>"

definition article_b :: Article where
  "article_b = \<lparr>a_id = ''2'', slug = ''b'', title = ''B'', snippet = None, ts = None, ats = None,
     activets = None, domain = ''ex.com'', origlink = ''https://ex.com/b'',
     parsedts = None, parsedats = None, parsedactivets = None\<rparr>"

definition ok_response :: "'b \<Rightarrow> 'b fetch_result" where
  "ok_response b = Fetch_response \<lparr>status = 200, json = Json b\<rparr>"

definition cache_a :: cache_state where
  "cache_a = \<lparr>articlesCache = [(''a'', article_a)], articlesIdSlugMap = [(''1'', ''a'')]\<rparr>"

definition cache_x :: cache_state where
  "cache_x = \<lparr>articlesCache = [(''x'', article_a)], articlesIdSlugMap = [(''1'', ''a'')]\<rparr>"

section \<open>Properties of the snippet normalisation\<close>

declare longWordReplace.simps [simp del]

lemma is_space_0x20: "is_space 0x20"
  by (simp add: is_space_def)

lemma longWordMatch_takeWhile:
  "longWordMatch s \<longleftrightarrow> 16 \<le> length (takeWhile is_word_unit s)"
proof
  assume m: "longWordMatch s"
  then have "\<forall>x\<in>set (take 16 s). is_word_unit x" and l: "16 \<le> length s"
    by (simp_all add: longWordMatch_def list_all_iff)
  then have "takeWhile is_word_unit (take 16 s @ drop 16 s) =
      take 16 s @ takeWhile is_word_unit (drop 16 s)"
    by (simp only: takeWhile_append2)
  then have "length (takeWhile is_word_unit s) =
      16 + length (takeWhile is_word_unit (drop 16 s))"
    using l by simp
  then show "16 \<le> length (takeWhile is_word_unit s)" by simp
next
  assume a: "16 \<le> length (takeWhile is_word_unit s)"
  have le: "length (takeWhile is_word_unit s) \<le> length s"
    by (rule length_takeWhile_le)
  have "take 16 s = take 16 (takeWhile is_word_unit s @ dropWhile is_word_unit s)"
    by simp
  also have "\<dots> = take 16 (takeWhile is_word_unit s)"
    using a by (simp only: take_append) simp
  finally have "set (take 16 s) \<subseteq> set (takeWhile is_word_unit s)"
    by (simp add: set_take_subset)
  then have "\<forall>x\<in>set (take 16 s). is_word_unit x"
    by (auto dest: set_takeWhileD)
  then show "longWordMatch s"
    using a le by (simp add: longWordMatch_def list_all_iff)
qed

text \<open>Collapsing whitespace leaves the leading run of word units as it is.\<close>

lemma takeWhile_whitespaceReplace:
  "takeWhile is_word_unit (whitespaceReplace s) = takeWhile is_word_unit s"
  by (induction s rule: whitespaceReplace.induct)
     (auto simp: is_word_unit_def is_space_0x20)

lemma longWordMatch_whitespaceReplace:
  "longWordMatch (whitespaceReplace s) \<longleftrightarrow> longWordMatch s"
  by (simp add: longWordMatch_takeWhile takeWhile_whitespaceReplace)

lemma hasLongWord_dropWhile: "hasLongWord (dropWhile P s) \<Longrightarrow> hasLongWord s"
  by (induction s) (auto split: if_splits)

lemma longWordMatch_space: "is_space c \<Longrightarrow> \<not> longWordMatch (c # cs)"
  by (auto simp: longWordMatch_takeWhile is_word_unit_def)

lemma hasLongWord_whitespaceReplace:
  "hasLongWord (whitespaceReplace s) \<Longrightarrow> hasLongWord s"
proof (induction s rule: whitespaceReplace.induct)
  case 1
  then show ?case by simp
next
  case (2 c cs)
  show ?case
  proof (cases "is_space c")
    case True
    with 2 have "hasLongWord (whitespaceReplace (dropWhile is_space cs))"
      by (simp add: longWordMatch_space is_space_0x20)
    with 2 True have "hasLongWord (dropWhile is_space cs)" by simp
    then show ?thesis by (simp add: hasLongWord_dropWhile)
  next
    case False
    from 2(3) False
    have "longWordMatch (c # whitespaceReplace cs) \<or> hasLongWord (whitespaceReplace cs)"
      by simp
    moreover have "longWordMatch (c # whitespaceReplace cs) = longWordMatch (c # cs)"
      using longWordMatch_whitespaceReplace [of "c # cs"] False by simp
    ultimately show ?thesis using 2(2) False by auto
  qed
qed

text \<open>Where the long-word expression matches nowhere, its replacement changes nothing.\<close>

lemma longWordReplace_id: "\<not> hasLongWord s \<Longrightarrow> longWordReplace s = s"
proof (induction s)
  case Nil
  then show ?case by (simp add: longWordReplace.simps longWordMatch_def)
next
  case (Cons c cs)
  then show ?case by (subst longWordReplace.simps) simp
qed

lemma dropWhile_whitespaceReplace:
  "(\<And>c cs. s = c # cs \<Longrightarrow> \<not> is_space c) \<Longrightarrow>
   dropWhile is_space (whitespaceReplace s) = whitespaceReplace s"
  by (cases s) auto

lemma whitespaceReplace_idem:
  "whitespaceReplace (whitespaceReplace s) = whitespaceReplace s"
proof (induction s rule: whitespaceReplace.induct)
  case 1
  then show ?case by simp
next
  case (2 c cs)
  show ?case
  proof (cases "is_space c")
    case True
    have "\<And>d ds. dropWhile is_space cs = d # ds \<Longrightarrow> \<not> is_space d"
      by (metis hd_dropWhile list.sel(1) list.distinct(1))
    then have "dropWhile is_space (whitespaceReplace (dropWhile is_space cs))
        = whitespaceReplace (dropWhile is_space cs)"
      by (rule dropWhile_whitespaceReplace)
    with 2 True show ?thesis by (simp add: is_space_0x20)
  next
    case False
    with 2 show ?thesis by simp
  qed
qed

text \<open>
  \<^const>\<open>hasLongWord\<close> says that the string contains 16 consecutive code units that are
  all word units.
\<close>

lemma hasLongWord_iff:
  "hasLongWord s \<longleftrightarrow>
     (\<exists>pre run post. s = pre @ run @ post \<and> length run = 16 \<and> list_all is_word_unit run)"
proof
  show "hasLongWord s \<Longrightarrow>
     \<exists>pre run post. s = pre @ run @ post \<and> length run = 16 \<and> list_all is_word_unit run"
  proof (induction s)
    case Nil
    then show ?case by simp
  next
    case (Cons c cs)
    show ?case
    proof (cases "longWordMatch (c # cs)")
      case True
      then have "c # cs = [] @ take 16 (c # cs) @ drop 16 (c # cs)"
        "length (take 16 (c # cs)) = 16" "list_all is_word_unit (take 16 (c # cs))"
        by (simp_all add: longWordMatch_def)
      then show ?thesis by blast
    next
      case False
      with Cons.prems have "hasLongWord cs" by simp
      with Cons.IH obtain pre run post where
        "cs = pre @ run @ post" "length run = 16" "list_all is_word_unit run"
        by blast
      then have "c # cs = (c # pre) @ run @ post \<and> length run = 16 \<and> list_all is_word_unit run"
        by simp
      then show ?thesis by blast
    qed
  qed
next
  assume "\<exists>pre run post. s = pre @ run @ post \<and> length run = 16 \<and> list_all is_word_unit run"
  then obtain pre run post where
    s: "s = pre @ run @ post" and l: "length run = 16" and w: "list_all is_word_unit run"
    by blast
  from l w have m: "longWordMatch (run @ post)"
    by (simp add: longWordMatch_def)
  from l have "run @ post \<noteq> []" by auto
  with m have "hasLongWord (run @ post)"
    by (cases "run @ post") auto
  then have "hasLongWord (pre @ run @ post)"
    by (induction pre) auto
  with s show "hasLongWord s" by simp
qed

lemma non_space_count_simps:
  "non_space_count [] = 0"
  "non_space_count (c # cs) = (if is_space c then 0 else 1) + non_space_count cs"
  "non_space_count (xs @ ys) = non_space_count xs + non_space_count ys"
  by (simp_all add: non_space_count_def)

lemma non_space_count_dropWhile:
  "non_space_count (dropWhile is_space s) = non_space_count s"
  by (induction s) (simp_all add: non_space_count_simps)

lemma non_space_count_whitespaceReplace:
  "non_space_count (whitespaceReplace s) = non_space_count s"
  by (induction s rule: whitespaceReplace.induct)
     (simp_all add: non_space_count_simps non_space_count_dropWhile is_space_0x20)

lemma non_space_count_shy: "non_space_count shy = 5"
  by (simp add: non_space_count_def shy_def is_space_def)

lemma non_space_count_longWordReplace:
  "non_space_count s \<le> non_space_count (longWordReplace s) \<and>
   (hasLongWord s \<longrightarrow> non_space_count s < non_space_count (longWordReplace s))"
proof (induction s rule: longWordReplace.induct)
  case (1 s)
  show ?case
  proof (cases "longWordMatch s")
    case True
    have "non_space_count s = non_space_count (take 16 s) + non_space_count (drop 16 s)"
      by (metis append_take_drop_id non_space_count_simps(3))
    moreover from 1(1) [OF True]
    have "non_space_count (drop 16 s) \<le> non_space_count (longWordReplace (drop 16 s))"
      by simp
    ultimately show ?thesis
      using True
      by (subst (1 2) longWordReplace.simps)
         (simp add: non_space_count_simps non_space_count_shy)
  next
    case False
    show ?thesis
    proof (cases s)
      case Nil
      then show ?thesis by (simp add: longWordReplace.simps longWordMatch_def)
    next
      case (Cons c cs)
      with False 1(2) [OF False Cons] show ?thesis
        by (subst (1 2) longWordReplace.simps) (simp add: non_space_count_simps)
    qed
  qed
qed

lemma hasLongWord_longWordReplace:
  "hasLongWord s \<Longrightarrow> hasLongWord (longWordReplace s)"
proof (induction s rule: longWordReplace.induct)
  case (1 s)
  show ?case
  proof (cases "longWordMatch s")
    case True
    then have "longWordMatch (take 16 s @ shy @ longWordReplace (drop 16 s))"
      by (simp add: longWordMatch_def)
    moreover from True have "take 16 s \<noteq> []"
      by (auto simp: longWordMatch_def)
    ultimately have "hasLongWord (take 16 s @ shy @ longWordReplace (drop 16 s))"
      by (cases "take 16 s @ shy @ longWordReplace (drop 16 s)") auto
    with True show ?thesis
      by (subst longWordReplace.simps) simp
  next
    case False
    show ?thesis
    proof (cases s)
      case Nil
      with 1(3) show ?thesis by simp
    next
      case (Cons c cs)
      with False 1(3) have "hasLongWord cs" by simp
      with 1(2) [OF False Cons] have "hasLongWord (longWordReplace cs)" by simp
      with False Cons show ?thesis
        by (subst longWordReplace.simps) simp
    qed
  qed
qed

lemma hasLongWord_dropWhile_space:
  "hasLongWord s \<Longrightarrow> hasLongWord (dropWhile is_space s)"
  by (induction s) (auto simp: longWordMatch_space)

lemma hasLongWord_whitespaceReplace_iff:
  "hasLongWord (whitespaceReplace s) \<longleftrightarrow> hasLongWord s"
proof
  show "hasLongWord (whitespaceReplace s) \<Longrightarrow> hasLongWord s"
    by (rule hasLongWord_whitespaceReplace)
next
  show "hasLongWord s \<Longrightarrow> hasLongWord (whitespaceReplace s)"
  proof (induction s rule: whitespaceReplace.induct)
    case 1
    then show ?case by simp
  next
    case (2 c cs)
    show ?case
    proof (cases "is_space c")
      case True
      with 2(3) have "hasLongWord cs" by (simp add: longWordMatch_space)
      then have "hasLongWord (dropWhile is_space cs)"
        by (rule hasLongWord_dropWhile_space)
      with 2(1) [OF True] True show ?thesis by simp
    next
      case False
      have m: "longWordMatch (c # whitespaceReplace cs) = longWordMatch (c # cs)"
        using longWordMatch_whitespaceReplace [of "c # cs"] False by simp
      from 2(3) have "longWordMatch (c # cs) \<or> hasLongWord cs" by simp
      with 2(2) [OF False] m False show ?thesis by auto
    qed
  qed
qed

lemma normalizeSnippet_changes_long_words:
  assumes "hasLongWord s"
  shows "normalizeSnippet (normalizeSnippet s) \<noteq> normalizeSnippet s"
proof -
  from assms have "hasLongWord (whitespaceReplace s)"
    by (simp add: hasLongWord_whitespaceReplace_iff)
  then have "hasLongWord (normalizeSnippet s)"
    unfolding normalizeSnippet_def by (rule hasLongWord_longWordReplace)
  then have "hasLongWord (whitespaceReplace (normalizeSnippet s))"
    by (simp add: hasLongWord_whitespaceReplace_iff)
  then have "non_space_count (whitespaceReplace (normalizeSnippet s)) <
      non_space_count (longWordReplace (whitespaceReplace (normalizeSnippet s)))"
    using non_space_count_longWordReplace by blast
  then have "non_space_count (normalizeSnippet s) <
      non_space_count (normalizeSnippet (normalizeSnippet s))"
    by (simp add: non_space_count_whitespaceReplace normalizeSnippet_def)
  then show ?thesis by auto
qed

text \<open>
  Claim C3, as stated, fails: a run of 16 letters \<^verbatim>\<open>a\<close> gets a marker, the marker's five
  characters are themselves word units, and the second pass finds the same 16 letters
  again and writes a second marker.
\<close>

theorem normalizeSnippet_not_idempotent:
  "normalizeSnippet (replicate 16 0x61) = replicate 16 0x61 @ shy \<and>
   normalizeSnippet (normalizeSnippet (replicate 16 0x61)) = replicate 16 0x61 @ shy @ shy \<and>
   normalizeSnippet (normalizeSnippet (replicate 16 0x61)) \<noteq> normalizeSnippet (replicate 16 0x61)"
  by code_simp

text \<open>
  Claim C3, amended. Collapsing whitespace is idempotent on every string. The whole
  normalisation is idempotent on a string exactly when the string has no 16 consecutive
  code units that are all neither whitespace nor a backslash; on such a string it is the
  whitespace collapse alone, and on every other string the second pass changes the
  result of the first. (\<^const>\<open>hasLongWord\<close> holds of the strings that contain such a
  run of 16.)
\<close>

theorem normalizeSnippet_idempotent_iff_no_long_word:
  "whitespaceReplace (whitespaceReplace s) = whitespaceReplace s \<and>
   (normalizeSnippet (normalizeSnippet s) = normalizeSnippet s \<longleftrightarrow> \<not> hasLongWord s) \<and>
   (\<not> hasLongWord s \<longrightarrow> normalizeSnippet s = whitespaceReplace s) \<and>
   (hasLongWord s \<longleftrightarrow>
      (\<exists>pre run post. s = pre @ run @ post \<and> length run = 16 \<and> list_all is_word_unit run))"
proof (intro conjI impI)
  show "hasLongWord s \<longleftrightarrow>
      (\<exists>pre run post. s = pre @ run @ post \<and> length run = 16 \<and> list_all is_word_unit run)"
    by (rule hasLongWord_iff)
next
  show "whitespaceReplace (whitespaceReplace s) = whitespaceReplace s"
    by (rule whitespaceReplace_idem)
next
  show "normalizeSnippet (normalizeSnippet s) = normalizeSnippet s \<longleftrightarrow> \<not> hasLongWord s"
  proof
    assume "normalizeSnippet (normalizeSnippet s) = normalizeSnippet s"
    then show "\<not> hasLongWord s"
      using normalizeSnippet_changes_long_words [of s] by blast
  next
    assume a: "\<not> hasLongWord s"
    then have b: "\<not> hasLongWord (whitespaceReplace s)"
      using hasLongWord_whitespaceReplace by blast
    then show "normalizeSnippet (normalizeSnippet s) = normalizeSnippet s"
      by (simp add: normalizeSnippet_def whitespaceReplace_idem longWordReplace_id)
  qed
next
  assume a: "\<not> hasLongWord s"
  then have "\<not> hasLongWord (whitespaceReplace s)"
    using hasLongWord_whitespaceReplace by blast
  then show "normalizeSnippet s = whitespaceReplace s"
    by (simp add: normalizeSnippet_def longWordReplace_id)
qed

theorem normalizeSnippet_idempotent_witness:
  "\<not> hasLongWord [0x61, 0x09, 0x20, 0x62] \<and>
   normalizeSnippet [0x61, 0x09, 0x20, 0x62] = [0x61, 0x20, 0x62] \<and>
   normalizeSnippet (normalizeSnippet [0x61, 0x09, 0x20, 0x62]) =
     normalizeSnippet [0x61, 0x09, 0x20, 0x62] \<and>
   hasLongWord (replicate 17 0x62) \<and>
   normalizeSnippet (normalizeSnippet (replicate 17 0x62)) \<noteq> normalizeSnippet (replicate 17 0x62)"
proof -
  have h: "\<not> hasLongWord [0x61, 0x09, 0x20, 0x62]"
    by (simp add: longWordMatch_def)
  have v: "normalizeSnippet [0x61, 0x09, 0x20, 0x62] = [0x61, 0x20, 0x62]"
    by code_simp
  from normalizeSnippet_idempotent_iff_no_long_word [of "[0x61, 0x09, 0x20, 0x62]"] h
  have i: "normalizeSnippet (normalizeSnippet [0x61, 0x09, 0x20, 0x62]) =
     normalizeSnippet [0x61, 0x09, 0x20, 0x62]"
    by blast
  have l: "hasLongWord (replicate 17 0x62)"
    by code_simp
  with normalizeSnippet_idempotent_iff_no_long_word [of "replicate 17 0x62"]
  have n: "normalizeSnippet (normalizeSnippet (replicate 17 0x62)) \<noteq>
      normalizeSnippet (replicate 17 0x62)"
    by blast
  from h v i l n show ?thesis by (intro conjI)
qed

section \<open>Properties of the notification store\<close>

lemma indexOf_ge: "- 1 \<le> indexOf xs x"
  by (induction xs) (auto simp: Let_def)

lemma indexOf_absent: "indexOf xs x < 0 \<longleftrightarrow> x \<notin> set xs"
proof (induction xs)
  case Nil
  then show ?case by simp
next
  case (Cons y ys)
  then show ?case
    using indexOf_ge [of ys x] by (auto simp: Let_def)
qed

lemma indexOf_splice:
  "x \<in> set xs \<Longrightarrow>
   take (nat (indexOf xs x)) xs @ drop (nat (indexOf xs x + 1)) xs = remove1 x xs"
proof (induction xs)
  case Nil
  then show ?case by simp
next
  case (Cons y ys)
  show ?case
  proof (cases "y = x")
    case True
    then show ?thesis by simp
  next
    case False
    with Cons.prems have m: "x \<in> set ys" by simp
    then have nn: "0 \<le> indexOf ys x"
      using indexOf_absent [of ys x] by simp
    then have "nat (indexOf ys x + 1) = Suc (nat (indexOf ys x))"
      and "nat (indexOf ys x + 1 + 1) = Suc (Suc (nat (indexOf ys x)))"
      by simp_all
    with False nn Cons.IH [OF m] show ?thesis
      by (simp add: Let_def)
  qed
qed

lemma rootReducer_remove:
  "rootReducer st (RemoveNotification n) =
     (if n \<in> set (notifications st) then st\<lparr>notifications := remove1 n (notifications st)\<rparr> else st)"
  using indexOf_absent [of "notifications st" n]
  by (simp add: Let_def indexOf_splice)

lemma state_timerFires:
  "state (timerFires t v) = rootReducer (state v) (RemoveNotification (snd t))"
  by (simp add: timerFires_def dispatch_def)

lemma createNotification_text:
  "createNotification (Inl s) k =
     (k + 1, Inr \<lparr>n_id = k, data = \<lparr>node = Span_html s, key = Some k\<rparr>, level = ''default'',
                  time = Some 3000, closable = True, n_context = Context_null\<rparr>)"
  by (simp add: createNotification_def span_def)

lemma notifications_removeNotificationsWithContext:
  "notifications (state (removeNotificationsWithContext c v)) =
     filter (\<lambda>n. n_context n \<noteq> c) (notifications (state v))"
  by (simp add: removeNotificationsWithContext_def setState_def dispatch_def noChange_def)

lemma count_list_filter:
  "count_list (filter P xs) x = (if P x then count_list xs x else 0)"
  by (induction xs) auto

lemma createNotification_context:
  "createNotification (Inr p) k = (k', Inr n) \<Longrightarrow> p_context p = None \<Longrightarrow> n_context n = Context_null"
  by (auto simp: createNotification_def Let_def split: option.splits payload.splits)

lemma addNotification_queued:
  "addNotification arg w = (w', Inr n) \<Longrightarrow> notifications (state w') = notifications (state w) @ [n]"
  by (auto simp: addNotification_def dispatch_def Let_def split: prod.splits sum.splits option.splits)

lemma addNotification_context:
  assumes "given_context arg = None" and "addNotification arg w = (w', Inr n)"
  shows "n_context n = Context_null"
proof (cases arg)
  case (Text s)
  with assms(2) show ?thesis
    by (auto simp: addNotification_def createNotification_text Let_def)
next
  case (Partial p)
  with assms show ?thesis
    by (auto simp: addNotification_def given_context_def Let_def
        split: prod.splits sum.splits dest: createNotification_context)
next
  case (Deferred p)
  with assms show ?thesis
    by (auto simp: addNotification_def given_context_def Let_def
        split: prod.splits sum.splits dest: createNotification_context)
qed

lemma createNotification_id:
  "createNotification arg k = (k', r) \<Longrightarrow> k' = k + 1 \<and> (\<forall>n. r = Inr n \<longrightarrow> n_id n = k)"
  by (auto simp: createNotification_def Let_def split: option.splits payload.splits)

lemma distinct_map_remove1:
  "distinct (map f xs) \<Longrightarrow> distinct (map f (remove1 x xs))"
proof (induction xs)
  case Nil
  then show ?case by simp
next
  case (Cons y ys)
  have "set (remove1 x ys) \<subseteq> set ys" by (rule set_remove1_subset)
  with Cons show ?case by auto
qed

lemma queue_fresh_remove:
  assumes "queue_fresh w"
  shows "queue_fresh (w\<lparr>state := rootReducer (state w) (RemoveNotification n)\<rparr>)"
proof -
  have "set (remove1 n (notifications (state w))) \<subseteq> set (notifications (state w))"
    by (rule set_remove1_subset)
  with assms show ?thesis
    by (auto simp: queue_fresh_def rootReducer_remove distinct_map_remove1
        simp del: rootReducer.simps)
qed

lemma queue_fresh_run_store_call:
  assumes "queue_fresh w"
  shows "queue_fresh (run_store_call c w)"
proof (cases c)
  case (Call_addNotification arg)
  obtain k r where cr: "createNotification
      (case arg of Text s \<Rightarrow> Inl s | Partial p \<Rightarrow> Inr p | Deferred p \<Rightarrow> Inr p)
      (notificationId w) = (k, r)"
    by (cases "createNotification
      (case arg of Text s \<Rightarrow> Inl s | Partial p \<Rightarrow> Inr p | Deferred p \<Rightarrow> Inr p)
      (notificationId w)")
  from createNotification_id [OF cr]
  have k: "k = notificationId w + 1" and i: "\<And>n. r = Inr n \<Longrightarrow> n_id n = notificationId w"
    by simp_all
  show ?thesis
  proof (cases r)
    case (Inl e)
    with cr k assms Call_addNotification show ?thesis
      by (auto simp: addNotification_def queue_fresh_def)
  next
    case (Inr n)
    with i have "n_id n = notificationId w" by simp
    with Inr cr k assms Call_addNotification show ?thesis
      by (auto simp: addNotification_def queue_fresh_def dispatch_def Let_def
          split: option.splits)
  qed
next
  case (Call_removeNotification n)
  with queue_fresh_remove [OF assms, of n] show ?thesis
    by (simp add: removeNotification_def dispatch_def del: rootReducer.simps)
next
  case (Call_removeNotificationsWithContext ctx)
  with assms show ?thesis
    by (auto simp: queue_fresh_def notifications_removeNotificationsWithContext
        removeNotificationsWithContext_def setState_def dispatch_def distinct_map_filter)
next
  case (Timer_fires t)
  have "queue_fresh (w\<lparr>timers := remove1 t (timers w)\<rparr>)"
    using assms by (simp add: queue_fresh_def)
  from queue_fresh_remove [OF this, of "snd t"] Timer_fires show ?thesis
    by (simp add: timerFires_def dispatch_def del: rootReducer.simps)
qed

lemma queue_fresh_run_store_calls:
  "queue_fresh w \<Longrightarrow> queue_fresh (run_store_calls cs w)"
  by (induction cs arbitrary: w) (simp_all add: queue_fresh_run_store_call del: run_store_call.simps)

lemma queue_fresh_distinct: "queue_fresh w \<Longrightarrow> distinct (notifications (state w))"
  by (simp add: queue_fresh_def distinct_map)

lemma queue_fresh_initial: "queue_fresh (store_of [])"
  by (simp add: queue_fresh_def store_of_def)

section \<open>Properties of the article cache\<close>

lemma processArticle_Raw:
  "\<exists>b. processArticle pf (Raw a) = Inr b \<and> a_id b = a_id a \<and> slug b = slug a \<and> title b = title a"
  by (simp add: Let_def split: option.splits)

lemma evictMatching_cache_le:
  "map_of (articlesCache (evictMatching p es w)) \<subseteq>\<^sub>m map_of (articlesCache w)"
proof (induction es arbitrary: w)
  case Nil
  then show ?case by simp
next
  case (Cons e es)
  obtain s a where e: "e = (s, a)" by (cases e)
  show ?case
  proof (cases "p a")
    case True
    have "map_of (AList.delete s (articlesCache w)) \<subseteq>\<^sub>m map_of (articlesCache w)"
      by (simp add: delete_conv' map_le_def)
    with Cons.IH [of "w\<lparr>articlesCache := AList.delete s (articlesCache w),
               articlesIdSlugMap := AList.delete (a_id a) (articlesIdSlugMap w)\<rparr>"]
    show ?thesis using e True by (auto intro: map_le_trans)
  next
    case False
    with Cons.IH [of w] e show ?thesis by simp
  qed
qed

lemma evictMatching_index_le:
  "map_of (articlesIdSlugMap (evictMatching p es w)) \<subseteq>\<^sub>m map_of (articlesIdSlugMap w)"
proof (induction es arbitrary: w)
  case Nil
  then show ?case by simp
next
  case (Cons e es)
  obtain s a where e: "e = (s, a)" by (cases e)
  show ?case
  proof (cases "p a")
    case True
    have "map_of (AList.delete (a_id a) (articlesIdSlugMap w)) \<subseteq>\<^sub>m map_of (articlesIdSlugMap w)"
      by (simp add: delete_conv' map_le_def)
    with Cons.IH [of "w\<lparr>articlesCache := AList.delete s (articlesCache w),
               articlesIdSlugMap := AList.delete (a_id a) (articlesIdSlugMap w)\<rparr>"]
    show ?thesis using e True by (auto intro: map_le_trans)
  next
    case False
    with Cons.IH [of w] e show ?thesis by simp
  qed
qed

lemma map_le_None: "m \<subseteq>\<^sub>m m' \<Longrightarrow> m' k = None \<Longrightarrow> m k = None"
  by (metis domIff map_le_def option.exhaust)

lemma evictMatching_evicts:
  "(s, a) \<in> set es \<Longrightarrow> p a \<Longrightarrow>
   map_of (articlesCache (evictMatching p es w)) s = None \<and>
   map_of (articlesIdSlugMap (evictMatching p es w)) (a_id a) = None"
proof (induction es arbitrary: w)
  case Nil
  then show ?case by simp
next
  case (Cons e es)
  show ?case
  proof (cases "e = (s, a)")
    case True
    let ?w = "w\<lparr>articlesCache := AList.delete s (articlesCache w),
               articlesIdSlugMap := AList.delete (a_id a) (articlesIdSlugMap w)\<rparr>"
    have "map_of (articlesCache ?w) s = None" "map_of (articlesIdSlugMap ?w) (a_id a) = None"
      by (simp_all add: delete_conv')
    then have "map_of (articlesCache (evictMatching p es ?w)) s = None"
      "map_of (articlesIdSlugMap (evictMatching p es ?w)) (a_id a) = None"
      using evictMatching_cache_le [of p es ?w] evictMatching_index_le [of p es ?w]
      by (blast intro: map_le_None)+
    with True Cons.prems show ?thesis by simp
  next
    case False
    with Cons.prems have "(s, a) \<in> set es" by simp
    from Cons.IH [OF this Cons.prems(2)] show ?thesis
      by (cases e) simp
  qed
qed

declare processArticle.simps [simp del]

section \<open>The notification queue: claims C8 and C10\<close>

text \<open>
  Claim C8. \<^verbatim>\<open>addNotification\<close> called with a string succeeds with a notification of
  level \<^verbatim>\<open>"default"\<close>, time 3000 and closable true, appended to the queue, and
  schedules its removal after 3000 ms. When that timer fires in a store whose queue
  still holds the notification (once, as every queued notification has an id of its
  own: the queue of every store reached from the module at load by calls of the
  notification functions and timers has no duplicates), the notification is gone and
  every other one stays. And
  \<^verbatim>\<open>removeNotificationsWithContext c\<close> leaves no notification of context \<open>c\<close> and
  keeps every occurrence of every other notification.
\<close>

theorem addNotification_text_and_removal_by_context:
  "(\<exists>n w'. addNotification (Text s) w = (w', Inr n) \<and>
       n_id n = notificationId w \<and> level n = ''default'' \<and> time n = Some 3000 \<and> closable n \<and>
       notifications (state w') = notifications (state w) @ [n] \<and>
       timers w' = timers w @ [(3000, n)] \<and> notificationId w' = notificationId w + 1) \<and>
   (m \<in> set (notifications (state v)) \<and> distinct (notifications (state v)) \<longrightarrow>
       set (notifications (state (timerFires (t, m) v))) = set (notifications (state v)) - {m}) \<and>
   distinct (notifications (state (run_store_calls cs (store_of [])))) \<and>
   count_list (notifications (state (removeNotificationsWithContext c v))) k =
     (if n_context k = c then 0 else count_list (notifications (state v)) k)"
proof (intro conjI impI)
  show "distinct (notifications (state (run_store_calls cs (store_of []))))"
    using queue_fresh_initial by (intro queue_fresh_distinct queue_fresh_run_store_calls)
next
  show "\<exists>n w'. addNotification (Text s) w = (w', Inr n) \<and>
       n_id n = notificationId w \<and> level n = ''default'' \<and> time n = Some 3000 \<and> closable n \<and>
       notifications (state w') = notifications (state w) @ [n] \<and>
       timers w' = timers w @ [(3000, n)] \<and> notificationId w' = notificationId w + 1"
    by (simp add: addNotification_def createNotification_text dispatch_def)
next
  assume "m \<in> set (notifications (state v)) \<and> distinct (notifications (state v))"
  then show "set (notifications (state (timerFires (t, m) v))) =
      set (notifications (state v)) - {m}"
    by (simp add: state_timerFires rootReducer_remove del: rootReducer.simps)
next
  show "count_list (notifications (state (removeNotificationsWithContext c v))) k =
     (if n_context k = c then 0 else count_list (notifications (state v)) k)"
    by (simp add: notifications_removeNotificationsWithContext count_list_filter)
qed

theorem addNotification_text_and_removal_by_context_witness:
  "snd (addNotification (Text ''x'') (store_of [])) = Inr text_notification \<and>
   level text_notification = ''default'' \<and> time text_notification = Some 3000 \<and>
   closable text_notification \<and>
   text_notification \<in> set (notifications (state (store_of [text_notification, form_notification]))) \<and>
   distinct (notifications (state (store_of [text_notification, form_notification]))) \<and>
   set (notifications (state (timerFires (3000, text_notification)
          (store_of [text_notification, form_notification])))) = {form_notification} \<and>
   count_list (notifications (state (removeNotificationsWithContext (Context_key ''form'')
          (store_of [text_notification, form_notification])))) form_notification = 0 \<and>
   count_list (notifications (state (removeNotificationsWithContext (Context_key ''form'')
          (store_of [text_notification, form_notification])))) text_notification = 1"
proof -
  have ne: "text_notification \<noteq> form_notification"
    by (simp add: text_notification_def form_notification_def)
  have q: "notifications (state (store_of [text_notification, form_notification])) =
      [text_notification, form_notification]"
    by (simp add: store_of_def)
  have h: "text_notification \<in> set (notifications (state (store_of [text_notification, form_notification]))) \<and>
      distinct (notifications (state (store_of [text_notification, form_notification])))"
    using ne by (simp add: q)
  note t1 = addNotification_text_and_removal_by_context
      [of "''x''" "store_of []" text_notification
        "store_of [text_notification, form_notification]" 3000 "[]" "Context_key ''form''"
        form_notification]
  note t2 = addNotification_text_and_removal_by_context
      [of "''x''" "store_of []" text_notification
        "store_of [text_notification, form_notification]" 3000 "[]" "Context_key ''form''"
        text_notification]
  from t1 h have f: "set (notifications (state (timerFires (3000, text_notification)
          (store_of [text_notification, form_notification])))) =
      set (notifications (state (store_of [text_notification, form_notification]))) - {text_notification}"
    by blast
  have f': "set (notifications (state (timerFires (3000, text_notification)
          (store_of [text_notification, form_notification])))) = {form_notification}"
    using ne by (simp add: f q)
  from t1 have c1: "count_list (notifications (state (removeNotificationsWithContext (Context_key ''form'')
          (store_of [text_notification, form_notification])))) form_notification = 0"
    by (simp add: form_notification_def)
  from t2 have c2: "count_list (notifications (state (removeNotificationsWithContext (Context_key ''form'')
          (store_of [text_notification, form_notification])))) text_notification = 1"
    using ne by (simp add: q) (simp add: text_notification_def)
  have s: "snd (addNotification (Text ''x'') (store_of [])) = Inr text_notification"
    by (simp add: addNotification_def createNotification_text store_of_def
        text_notification_def dispatch_def initialState_def)
  have d: "level text_notification = ''default'' \<and> time text_notification = Some 3000 \<and>
      closable text_notification"
    by (simp add: text_notification_def)
  from s d h f' c1 c2 show ?thesis by blast
qed

text \<open>
  Claim C10. A notification that \<^verbatim>\<open>addNotification\<close> creates from an argument with
  no context field (a string, or a record or producer result without one) has the
  context \<^verbatim>\<open>null\<close> and is in the queue; \<^verbatim>\<open>removeNotificationsWithContext(null)\<close>
  removes it, as it removes every notification whose context is \<^verbatim>\<open>null\<close>.
\<close>

theorem default_context_is_null_and_removed_with_null:
  "given_context arg = None \<Longrightarrow> addNotification arg w = (w', Inr n) \<Longrightarrow>
   n_context n = Context_null \<and> n \<in> set (notifications (state w')) \<and>
   n \<notin> set (notifications (state (removeNotificationsWithContext Context_null w'))) \<and>
   (\<forall>m v. n_context m = Context_null \<longrightarrow>
      m \<notin> set (notifications (state (removeNotificationsWithContext Context_null v))))"
  by (simp add: addNotification_context addNotification_queued
      notifications_removeNotificationsWithContext)

theorem default_context_is_null_witness:
  "given_context (Partial example_partial) = None \<and>
   snd (addNotification (Partial example_partial) (store_of [])) = Inr example_notification \<and>
   n_context example_notification = Context_null \<and>
   example_notification \<in> set (notifications (state (fst
       (addNotification (Partial example_partial) (store_of []))))) \<and>
   example_notification \<notin> set (notifications (state (removeNotificationsWithContext Context_null
       (fst (addNotification (Partial example_partial) (store_of []))))))"
proof -
  have g: "given_context (Partial example_partial) = None"
    by (simp add: given_context_def example_partial_def)
  have s: "snd (addNotification (Partial example_partial) (store_of [])) = Inr example_notification"
    by (simp add: addNotification_def createNotification_def example_partial_def store_of_def
      example_notification_def span_def dispatch_def initialState_def)
  then have a: "addNotification (Partial example_partial) (store_of []) =
      (fst (addNotification (Partial example_partial) (store_of [])), Inr example_notification)"
    by (metis prod.collapse)
  from default_context_is_null_and_removed_with_null [OF g a] g s show ?thesis by blast
qed

section \<open>The request gateway and lookups by id: claims C5 and C2\<close>

text \<open>
  Claim C5. Whatever the endpoint and the options, the promise of \<^verbatim>\<open>request\<close> is
  settled from the response alone: with a status of 400 or more it is rejected with
  the response object itself; with a status below 400 it is never rejected, it resolves
  to the parsed body, and to \<^verbatim>\<open>null\<close> when the body is empty or cannot be parsed.
\<close>

theorem request_rejects_from_400_and_null_on_bad_body:
  "(400 \<le> status req \<longrightarrow> request_then (Fetch_response req) = Inl (Raw_response req)) \<and>
   (status req < 400 \<longrightarrow>
      (\<forall>e. request_then (Fetch_response req) \<noteq> Inl e) \<and>
      (json req = Unparsable \<longrightarrow> request_then (Fetch_response req) = Inr None) \<and>
      (\<forall>v. json req = Json v \<longrightarrow> request_then (Fetch_response req) = Inr (Some v)))"
  by simp

theorem request_rejects_from_400_witness:
  "request_then (Fetch_response \<lparr>status = 404, json = Json ''no such article''\<rparr>) =
     Inl (Raw_response \<lparr>status = 404, json = Json ''no such article''\<rparr>) \<and>
   request_then (Fetch_response \<lparr>status = 200, json = Unparsable :: string json\<rparr>) = Inr None \<and>
   request_then (Fetch_response \<lparr>status = 200, json = Json ''ok''\<rparr>) = Inr (Some ''ok'')"
proof -
  have "(400::nat) \<le> status \<lparr>status = 404, json = Json ''no such article''\<rparr>" by simp
  with request_rejects_from_400_and_null_on_bad_body
         [of "\<lparr>status = 404, json = Json ''no such article''\<rparr>"]
  have 1: "request_then (Fetch_response \<lparr>status = 404, json = Json ''no such article''\<rparr>) =
     Inl (Raw_response \<lparr>status = 404, json = Json ''no such article''\<rparr>)"
    by blast
  have "status \<lparr>status = 200, json = Unparsable :: string json\<rparr> < 400"
    "json \<lparr>status = 200, json = Unparsable :: string json\<rparr> = Unparsable" by simp_all
  with request_rejects_from_400_and_null_on_bad_body
         [of "\<lparr>status = 200, json = Unparsable :: string json\<rparr>"]
  have 2: "request_then (Fetch_response \<lparr>status = 200, json = Unparsable :: string json\<rparr>) = Inr None"
    by blast
  have "status \<lparr>status = 200, json = Json ''ok''\<rparr> < 400"
    "json \<lparr>status = 200, json = Json ''ok''\<rparr> = Json ''ok''" by simp_all
  with request_rejects_from_400_and_null_on_bad_body [of "\<lparr>status = 200, json = Json ''ok''\<rparr>"]
  have 3: "request_then (Fetch_response \<lparr>status = 200, json = Json ''ok''\<rparr>) = Inr (Some ''ok'')"
    by blast
  from 1 2 3 show ?thesis by blast
qed

text \<open>
  Claim C2, as stated, fails: on a miss, a response of status 404 makes
  \<^verbatim>\<open>getArticle("42")\<close> reject with that response; it does not resolve to \<^verbatim>\<open>null\<close>.
\<close>

theorem getArticle_404_rejects:
  "getArticle platform0 ''42'' (Fetch_response \<lparr>status = 404, json = Unparsable\<rparr>) empty_cache =
     (empty_cache, [get_call (News_id ''42'')],
      Inl (Raw_response \<lparr>status = 404, json = Unparsable\<rparr>)) \<and>
   snd (snd (getArticle platform0 ''42'' (Fetch_response \<lparr>status = 404, json = Unparsable\<rparr>)
       empty_cache)) \<noteq> Inr Null"
  by (simp add: getArticle_def empty_cache_def)

text \<open>
  Claim C2, amended. For an id that is not indexed, \<^verbatim>\<open>getArticle\<close> issues its one
  request and rejects with the raw response whenever the status is 400 or more, 404 and
  500 alike, leaving the cache as it was; it resolves to \<^verbatim>\<open>null\<close> when a response of
  status below 400 carries a body that is a value without an \<^verbatim>\<open>id\<close> field.
\<close>

theorem getArticle_rejects_from_400_and_null_without_id:
  "map_of (articlesIdSlugMap w) ident = None \<Longrightarrow>
   (400 \<le> status req \<longrightarrow>
      getArticle pf ident (Fetch_response req) w =
        (w, [get_call (News_id ident)], Inl (Raw_response req))) \<and>
   (status req < 400 \<and> json req = Json Without_id \<longrightarrow>
      getArticle pf ident (Fetch_response req) w = (w, [get_call (News_id ident)], Inr Null))"
  by (simp add: getArticle_def)

theorem getArticle_rejects_from_400_witness:
  "map_of (articlesIdSlugMap cache_a) ''42'' = None \<and>
   getArticle platform0 ''42'' (Fetch_response \<lparr>status = 404, json = Json Without_id\<rparr>) cache_a =
     (cache_a, [get_call (News_id ''42'')],
      Inl (Raw_response \<lparr>status = 404, json = Json Without_id\<rparr>)) \<and>
   getArticle platform0 ''42'' (Fetch_response \<lparr>status = 500, json = Unparsable\<rparr>) cache_a =
     (cache_a, [get_call (News_id ''42'')],
      Inl (Raw_response \<lparr>status = 500, json = Unparsable\<rparr>)) \<and>
   getArticle platform0 ''42'' (Fetch_response \<lparr>status = 200, json = Json Without_id\<rparr>) cache_a =
     (cache_a, [get_call (News_id ''42'')], Inr Null)"
proof -
  have m: "map_of (articlesIdSlugMap cache_a) ''42'' = None"
    by (simp add: cache_a_def)
  note t = getArticle_rejects_from_400_and_null_without_id [OF m, of _ platform0]
  have 1: "getArticle platform0 ''42'' (Fetch_response \<lparr>status = 404, json = Json Without_id\<rparr>) cache_a =
     (cache_a, [get_call (News_id ''42'')],
      Inl (Raw_response \<lparr>status = 404, json = Json Without_id\<rparr>))"
    using t [of "\<lparr>status = 404, json = Json Without_id\<rparr>"] by simp
  have 2: "getArticle platform0 ''42'' (Fetch_response \<lparr>status = 500, json = Unparsable\<rparr>) cache_a =
     (cache_a, [get_call (News_id ''42'')],
      Inl (Raw_response \<lparr>status = 500, json = Unparsable\<rparr>))"
    using t [of "\<lparr>status = 500, json = Unparsable\<rparr>"] by simp
  have 3: "getArticle platform0 ''42'' (Fetch_response \<lparr>status = 200, json = Json Without_id\<rparr>) cache_a =
     (cache_a, [get_call (News_id ''42'')], Inr Null)"
    using t [of "\<lparr>status = 200, json = Json Without_id\<rparr>"] by simp
  from m 1 2 3 show ?thesis by blast
qed

section \<open>The article cache: claims C1 and C4\<close>

lemma getArticle_inserts:
  assumes miss: "map_of (articlesIdSlugMap w) ident = None"
    and ans: "answer_article fr = Some a"
  shows "\<exists>b. processArticle pf (Raw a) = Inr b \<and>
     getArticle pf ident fr w =
       (w\<lparr>articlesCache := AList.update (slug b) b (articlesCache w),
          articlesIdSlugMap := AList.update (a_id b) (slug b) (articlesIdSlugMap w)\<rparr>,
        [get_call (News_id ident)], Inr (Found b))"
proof -
  obtain b where b: "processArticle pf (Raw a) = Inr b"
    using processArticle_Raw [of pf a] by blast
  from ans have "request_then fr = Inr (Some (With_id a))"
    by (simp add: answer_article_def split: sum.splits option.splits article_body.splits)
  with miss b show ?thesis
    by (simp add: getArticle_def)
qed

lemma getArticleBySlug_inserts:
  assumes miss: "map_of (articlesCache w) slug_arg = None"
    and ans: "answer_article fr = Some a"
  shows "\<exists>b. processArticle pf (Raw a) = Inr b \<and>
     getArticleBySlug pf slug_arg fr w =
       (w\<lparr>articlesCache := AList.update slug_arg b (articlesCache w),
          articlesIdSlugMap := AList.update (a_id b) (slug b) (articlesIdSlugMap w)\<rparr>,
        [get_call (News_slug slug_arg)], Inr (Found b))"
proof -
  obtain b where b: "processArticle pf (Raw a) = Inr b"
    using processArticle_Raw [of pf a] by blast
  from ans have "request_then fr = Inr (Some (With_id a))"
    by (simp add: answer_article_def split: sum.splits option.splits article_body.splits)
  with miss b show ?thesis
    by (simp add: getArticleBySlug_def)
qed

lemma addArticle_evicts:
  assumes "(s, a) \<in> set (articlesCache w)" and "title a = title_arg"
  shows "map_of (articlesCache (fst (addArticle link title_arg snippet_arg content position fr w))) s = None \<and>
     map_of (articlesIdSlugMap (fst (addArticle link title_arg snippet_arg content position fr w)))
       (a_id a) = None"
  using evictMatching_evicts [of s a "articlesCache w" "\<lambda>article. title article = title_arg" w] assms
  by (simp add: addArticle_def Let_def)

lemma updateArticle_evicts:
  assumes "(s, a) \<in> set (articlesCache w)" and "u_id updated = Some (a_id a)"
  shows "map_of (articlesCache (fst (updateArticle updated fr w))) s = None \<and>
     map_of (articlesIdSlugMap (fst (updateArticle updated fr w))) (a_id a) = None"
  using evictMatching_evicts [of s a "articlesCache w" "\<lambda>article. Some (a_id article) = u_id updated" w]
    assms
  by (simp add: updateArticle_def Let_def)

lemma addArticle_calls:
  "map req_method (fst (snd (addArticle link title_arg snippet_arg content position fr w))) = [POST] \<and>
   snd (snd (addArticle link title_arg snippet_arg content position fr w)) = request_then fr"
  by (simp add: addArticle_def Let_def post_call_def)

lemma updateArticle_calls:
  "fst (snd (updateArticle updated fr w)) = [post_call News_manual (Update_body updated)] \<and>
   snd (snd (updateArticle updated fr w)) = request_then fr"
  by (simp add: updateArticle_def Let_def)

text \<open>
  Claim C1, as stated, fails for the mutations other than add and update: with the
  article of id 1 cached under slug a, \<^verbatim>\<open>archiveArticle("1")\<close> issues its request and
  both maps still hold the entry.
\<close>

theorem archiveArticle_keeps_cached_entry:
  "(''a'', article_a) \<in> set (articlesCache cache_a) \<and> a_id article_a = ''1'' \<and>
   map_of (articlesCache (fst (archiveArticle ''1'' (ok_response ()) cache_a))) ''a'' =
     Some article_a \<and>
   map_of (articlesIdSlugMap (fst (archiveArticle ''1'' (ok_response ()) cache_a))) ''1'' =
     Some ''a'' \<and>
   fst (snd (archiveArticle ''1'' (ok_response ()) cache_a)) = [put_call (News_archive_id ''1'')]"
  by (simp add: archiveArticle_def cache_a_def) (simp add: article_a_def)

text \<open>
  Claim C1, amended. \<^verbatim>\<open>addArticle\<close> and \<^verbatim>\<open>updateArticle\<close> remove every cached entry
  that matches their target (the title for add, the id for update) from the slug map,
  and its article's id from the id map, and issue their one POST request with the maps
  in that state. The other eight mutations issue their request and leave both maps as
  they are.
\<close>

theorem add_and_update_evict_matching_entries:
  "((s, a) \<in> set (articlesCache w) \<and> title a = title_arg \<longrightarrow>
      map_of (articlesCache (fst (addArticle link title_arg snippet_arg content position fr w))) s
        = None \<and>
      map_of (articlesIdSlugMap (fst (addArticle link title_arg snippet_arg content position fr w)))
        (a_id a) = None \<and>
      map req_method (fst (snd (addArticle link title_arg snippet_arg content position fr w)))
        = [POST]) \<and>
   ((s, a) \<in> set (articlesCache w) \<and> u_id updated = Some (a_id a) \<longrightarrow>
      map_of (articlesCache (fst (updateArticle updated fr w))) s = None \<and>
      map_of (articlesIdSlugMap (fst (updateArticle updated fr w))) (a_id a) = None \<and>
      fst (snd (updateArticle updated fr w)) = [post_call News_manual (Update_body updated)]) \<and>
   archiveArticle ident fr w = (w, [put_call (News_archive_id ident)], request_then fr) \<and>
   activateArticle ident fr w = (w, [put_call (News_active_put ident)], request_then fr) \<and>
   removeArticle ident fr w = (w, [delete_call (News_delete ident)], request_then fr) \<and>
   restoreArticle ident fr w = (w, [put_call (News_undelete ident)], request_then fr) \<and>
   moveArticle ident offset fr w = (w, [put_call (News_moveid ident offset)], request_then fr) \<and>
   makeArticleGeek ident fr w = (w, [put_call (News_geek ident)], request_then fr) \<and>
   makeArticleNotGeek ident fr w = (w, [put_call (News_nogeek ident)], request_then fr) \<and>
   fst (makeArticleFirst ident fr1 fr2 w) = w"
proof (intro conjI impI)
  assume h: "(s, a) \<in> set (articlesCache w) \<and> title a = title_arg"
  then show "map_of (articlesCache (fst (addArticle link title_arg snippet_arg content position fr w))) s
        = None"
    and "map_of (articlesIdSlugMap (fst (addArticle link title_arg snippet_arg content position fr w)))
        (a_id a) = None"
    using addArticle_evicts [of s a w title_arg link snippet_arg content position fr] by simp_all
  show "map req_method (fst (snd (addArticle link title_arg snippet_arg content position fr w)))
        = [POST]"
    by (simp add: addArticle_calls)
next
  assume h: "(s, a) \<in> set (articlesCache w) \<and> u_id updated = Some (a_id a)"
  then show "map_of (articlesCache (fst (updateArticle updated fr w))) s = None"
    and "map_of (articlesIdSlugMap (fst (updateArticle updated fr w))) (a_id a) = None"
    using updateArticle_evicts [of s a w updated fr] by simp_all
  show "fst (snd (updateArticle updated fr w)) = [post_call News_manual (Update_body updated)]"
    by (simp add: updateArticle_calls)
next
  show "fst (makeArticleFirst ident fr1 fr2 w) = w"
    by (simp add: makeArticleFirst_def Let_def split: sum.splits option.splits)
qed (simp_all add: archiveArticle_def activateArticle_def removeArticle_def restoreArticle_def
      moveArticle_def makeArticleGeek_def makeArticleNotGeek_def)

theorem add_and_update_evict_witness:
  "(''a'', article_a) \<in> set (articlesCache cache_a) \<and> title article_a = ''A'' \<and>
   map_of (articlesCache (fst (addArticle ''https://ex.com/a'' ''A'' [] [] None (ok_response ()) cache_a)))
     ''a'' = None \<and>
   map_of (articlesIdSlugMap (fst (addArticle ''https://ex.com/a'' ''A'' [] [] None (ok_response ()) cache_a)))
     ''1'' = None \<and>
   u_id \<lparr>u_id = Some ''1'', u_title = Some ''A2'', u_snippet = None, u_content = None\<rparr> =
     Some (a_id article_a) \<and>
   map_of (articlesCache (fst (updateArticle
       \<lparr>u_id = Some ''1'', u_title = Some ''A2'', u_snippet = None, u_content = None\<rparr>
       (ok_response ()) cache_a))) ''a'' = None \<and>
   map_of (articlesIdSlugMap (fst (updateArticle
       \<lparr>u_id = Some ''1'', u_title = Some ''A2'', u_snippet = None, u_content = None\<rparr>
       (ok_response ()) cache_a))) ''1'' = None"
proof -
  have m: "(''a'', article_a) \<in> set (articlesCache cache_a)"
    by (simp add: cache_a_def)
  have t: "title article_a = ''A''" and i: "a_id article_a = ''1''"
    by (simp_all add: article_a_def)
  have u: "u_id \<lparr>u_id = Some ''1'', u_title = Some ''A2'', u_snippet = None, u_content = None\<rparr> =
     Some (a_id article_a)"
    by (simp add: i)
  note th = add_and_update_evict_matching_entries
      [of "''a''" article_a cache_a "''A''" "''https://ex.com/a''" "[]" "[]" None "ok_response ()"
        "\<lparr>u_id = Some ''1'', u_title = Some ''A2'', u_snippet = None, u_content = None\<rparr>"]
  from th m t have 1:
    "map_of (articlesCache (fst (addArticle ''https://ex.com/a'' ''A'' [] [] None (ok_response ()) cache_a)))
       ''a'' = None"
    "map_of (articlesIdSlugMap (fst (addArticle ''https://ex.com/a'' ''A'' [] [] None (ok_response ()) cache_a)))
       (a_id article_a) = None"
    by blast+
  from th m u have 2:
    "map_of (articlesCache (fst (updateArticle
       \<lparr>u_id = Some ''1'', u_title = Some ''A2'', u_snippet = None, u_content = None\<rparr>
       (ok_response ()) cache_a))) ''a'' = None"
    "map_of (articlesIdSlugMap (fst (updateArticle
       \<lparr>u_id = Some ''1'', u_title = Some ''A2'', u_snippet = None, u_content = None\<rparr>
       (ok_response ()) cache_a))) (a_id article_a) = None"
    by blast+
  from m t u 1 2 show ?thesis
    unfolding i by blast
qed

text \<open>
  Claim C4 against the code. On the empty cache, \<^verbatim>\<open>getArticleBySlug("x")\<close> answered
  with the article of id 1 and slug a stores the article under the requested slug x
  (line 207) and indexes id 1 under the article's slug a (line 208): the id map then
  names a slug that is no key of the slug map, and \<^verbatim>\<open>getArticle("1")\<close> hits the id map
  and resolves to \<^verbatim>\<open>undefined\<close>. \<^verbatim>\<open>getArticle\<close>, given the same answer, stores the
  article under its own slug (line 191) and leaves the index closed.
\<close>

theorem getArticleBySlug_breaks_index:
  "getArticleBySlug platform0 ''x'' (ok_response (With_id article_a)) empty_cache =
     (cache_x, [get_call (News_slug ''x'')], Inr (Found article_a)) \<and>
   map_of (articlesIdSlugMap cache_x) ''1'' = Some ''a'' \<and>
   map_of (articlesCache cache_x) ''a'' = None \<and>
   \<not> index_closed cache_x \<and>
   getArticle platform0 ''1'' Fetch_failed cache_x = (cache_x, [], Inr Undefined) \<and>
   getArticle platform0 ''1'' (ok_response (With_id article_a)) empty_cache =
     (cache_a, [get_call (News_id ''1'')], Inr (Found article_a)) \<and>
   index_closed cache_a"
proof -
  have pa: "processArticle platform0 (Raw article_a) = Inr article_a"
    by (simp add: processArticle.simps article_a_def)
  have ia: "a_id article_a = ''1''" "slug article_a = ''a''"
    by (simp_all add: article_a_def)
  have 1: "getArticleBySlug platform0 ''x'' (ok_response (With_id article_a)) empty_cache =
     (cache_x, [get_call (News_slug ''x'')], Inr (Found article_a))"
    by (simp add: getArticleBySlug_def empty_cache_def ok_response_def pa ia cache_x_def)
  have 2: "map_of (articlesIdSlugMap cache_x) ''1'' = Some ''a''"
    "map_of (articlesCache cache_x) ''a'' = None"
    "\<not> index_closed cache_x"
    by (simp_all add: cache_x_def index_closed_def)
  have 3: "getArticle platform0 ''1'' Fetch_failed cache_x = (cache_x, [], Inr Undefined)"
    by (simp add: getArticle_def) (simp add: cache_x_def)
  have 4: "getArticle platform0 ''1'' (ok_response (With_id article_a)) empty_cache =
     (cache_a, [get_call (News_id ''1'')], Inr (Found article_a))"
    by (simp add: getArticle_def empty_cache_def ok_response_def pa ia cache_a_def)
  have 5: "index_closed cache_a"
    by (simp add: cache_a_def index_closed_def)
  from 1 2 3 4 5 show ?thesis by (intro conjI)
qed

section \<open>Moving an article to the front: claim C6\<close>

lemma exact_in_range: "\<bar>n\<bar> \<le> 2 ^ 53 \<Longrightarrow> exact n = Exact n"
  by (simp add: exact_def)

lemma foldl_max_Max:
  "foldl (\<lambda>c x. max c x) (c::int) xs = Max (insert c (set xs))"
proof (induction xs arbitrary: c)
  case Nil
  then show ?case by simp
next
  case (Cons x xs)
  have "Max (insert (max c x) (set xs)) = Max (insert c (insert x (set xs)))"
  proof (cases "set xs = {}")
    case True
    then show ?thesis by (simp add: max.commute)
  next
    case False
    then show ?thesis by (simp add: max.assoc)
  qed
  with Cons show ?case by simp
qed

text \<open>On exact integers of the range, the fold of \<^verbatim>\<open>Math.max\<close> is the fold of \<open>max\<close>.\<close>

lemma foldl_Math_max:
  "\<bar>c\<bar> \<le> 2 ^ 53 \<Longrightarrow> \<forall>x \<in> set xs. \<bar>x\<bar> \<le> 2 ^ 53 \<Longrightarrow>
   foldl (\<lambda>c x. Math_max c x) (Exact c) (map Exact xs) = Exact (foldl (\<lambda>c x. max c x) c xs)"
proof (induction xs arbitrary: c)
  case Nil
  then show ?case by simp
next
  case (Cons x xs)
  then have "\<bar>max c x\<bar> \<le> 2 ^ 53" by (simp add: max_def)
  with Cons show ?case by (simp add: exact_in_range)
qed

text \<open>
  Claim C6 against the code. For the table \<open>{a: -3}\<close> and the id a, the fold that
  computes \<^verbatim>\<open>maxPos\<close> starts from 0 (line 339) and ends at 0, so the move request is
  sent with the offset \<open>0 - (-3) = 3\<close>; the maximum position of the table is \<open>-3\<close>, and
  the maximum minus the target's position is 0.
\<close>

theorem makeArticleFirst_negative_positions:
  "makeArticleFirst ''a'' (ok_response [(''a'', Exact (- 3))]) Fetch_failed empty_cache =
     (empty_cache, [get_call News_positions, put_call (News_moveid ''a'' (Exact 3))],
      Inl Network_failure) \<and>
   Max (snd ` set [(''a'', - 3 :: int)]) - (- 3) = 0 \<and>
   Exact 3 \<noteq> Exact (Max (snd ` set [(''a'', - 3 :: int)]) - (- 3))"
  by (simp add: makeArticleFirst_def ok_response_def exact_def)

text \<open>
  Where the code and the claim agree. For a table of integers of magnitude at most
  \<open>2\<^sup>5\<^sup>2\<close>: if the id is absent, \<^verbatim>\<open>makeArticleFirst\<close> fails with the "position not
  found" error and has issued the positions request only; if the id is present, it
  issues one move request after the positions request, with the larger of 0 and the
  table's maximum, minus the target's position, as the offset, which is the maximum
  minus the target's position as soon as the table holds a position that is not
  negative.
\<close>

lemma makeArticleFirst_offset:
  assumes r: "request_then fr1 = Inr (Some (map (\<lambda>(k, v). (k, Exact v)) table))"
    and range: "\<forall>v \<in> snd ` set table. \<bar>v\<bar> \<le> 2 ^ 52"
  shows "(map_of table ident = None \<longrightarrow>
      makeArticleFirst ident fr1 fr2 w =
        (w, [get_call News_positions], Inl (Exception Cant_find_position))) \<and>
   (\<forall>pos. map_of table ident = Some pos \<longrightarrow>
      makeArticleFirst ident fr1 fr2 w =
        (w, [get_call News_positions,
             put_call (News_moveid ident (Exact (max 0 (Max (snd ` set table)) - pos)))],
         request_then fr2) \<and>
      ((\<exists>p \<in> snd ` set table. 0 \<le> p) \<longrightarrow>
         max 0 (Max (snd ` set table)) - pos = Max (snd ` set table) - pos))"
proof (intro conjI allI impI)
  have m: "map_of (map (\<lambda>(k, v). (k, Exact v)) table) ident = map_option Exact (map_of table ident)"
    by (induction table) auto
  have v: "map (snd \<circ> (\<lambda>(k, v). (k, Exact v))) table = map Exact (map snd table)"
    by (induction table) auto
  {
    assume "map_of table ident = None"
    with r m show "makeArticleFirst ident fr1 fr2 w =
        (w, [get_call News_positions], Inl (Exception Cant_find_position))"
      by (simp add: makeArticleFirst_def)
  }
  {
    fix pos
    assume p: "map_of table ident = Some pos"
    then have mem: "pos \<in> snd ` set table"
      by (force dest: map_of_SomeD)
    then have ne: "set (map snd table) \<noteq> {}" by auto
    from range have r53: "\<forall>x \<in> set (map snd table). \<bar>x\<bar> \<le> 2 ^ 53" by auto
    have "foldl (\<lambda>c x. Math_max c x) (Exact 0) (map Exact (map snd table)) =
        Exact (max 0 (Max (snd ` set table)))"
      using foldl_Math_max [of 0 "map snd table"] r53 ne
      by (simp add: foldl_max_Max)
    then have f: "foldl (\<lambda>c x. Math_max c x) (Exact 0)
        (map (snd \<circ> (\<lambda>(k, v). (k, Exact v))) table) = Exact (max 0 (Max (snd ` set table)))"
      unfolding v .
    have "Max (snd ` set table) \<in> snd ` set table"
      using ne by (intro Max_in) auto
    with range have "\<bar>Max (snd ` set table)\<bar> \<le> 2 ^ 52" by blast
    moreover from range mem have "\<bar>pos\<bar> \<le> 2 ^ 52" by blast
    ultimately have "\<bar>max 0 (Max (snd ` set table)) - pos\<bar> \<le> 2 ^ 53"
      by (simp add: max_def abs_if split: if_splits)
    then have e: "exact (max 0 (Max (snd ` set table)) - pos) =
        Exact (max 0 (Max (snd ` set table)) - pos)"
      by (rule exact_in_range)
    from r m p show "makeArticleFirst ident fr1 fr2 w =
        (w, [get_call News_positions,
             put_call (News_moveid ident (Exact (max 0 (Max (snd ` set table)) - pos)))],
         request_then fr2)"
      by (simp add: makeArticleFirst_def f e)
  }
  {
    fix pos
    assume "\<exists>p \<in> snd ` set table. 0 \<le> p"
    then obtain p where p: "p \<in> snd ` set table" "0 \<le> p" by blast
    then have "p \<le> Max (snd ` set table)" by simp
    with p(2) show "max 0 (Max (snd ` set table)) - pos = Max (snd ` set table) - pos"
      by simp
  }
qed

section \<open>The active-article poller: claim C7\<close>

lemma pollActiveArticle_events:
  "fst (pollActiveArticle ms frs) =
     concat (map (round_events ms) (takeWhile no_id frs)) @
     [Request (get_call (News_active_wait ms))]"
  by (induction frs)
     (auto simp: no_id_def round_events_def after_events_def split: sum.splits option.splits)

lemma pollActiveArticle_settles:
  "snd (pollActiveArticle ms frs) =
     (case dropWhile no_id frs of
        [] \<Rightarrow> Pending
      | fr # rest \<Rightarrow> (case poll_try fr of Inr (Some i) \<Rightarrow> Resolved i | _ \<Rightarrow> Pending))"
  by (induction frs)
     (auto simp: no_id_def after_events_def split: sum.splits option.splits)

lemma not_no_id: "\<not> no_id fr \<longleftrightarrow> (\<exists>i. poll_try fr = Inr (Some i))"
  by (auto simp: no_id_def split: sum.splits option.splits)

lemma pollActiveArticle_resolved_iff:
  "snd (pollActiveArticle ms frs) = Resolved i \<longleftrightarrow>
     (\<exists>pre fr post. frs = pre @ fr # post \<and> list_all no_id pre \<and> poll_try fr = Inr (Some i))"
proof
  assume r: "snd (pollActiveArticle ms frs) = Resolved i"
  then obtain fr rest where d: "dropWhile no_id frs = fr # rest"
    by (auto simp: pollActiveArticle_settles split: list.splits)
  with r have "poll_try fr = Inr (Some i)"
    by (auto simp: pollActiveArticle_settles split: sum.splits option.splits)
  moreover have "frs = takeWhile no_id frs @ fr # rest"
    using d by (metis takeWhile_dropWhile_id)
  moreover have "list_all no_id (takeWhile no_id frs)"
    by (auto simp: list_all_iff dest: set_takeWhileD)
  ultimately show "\<exists>pre fr post. frs = pre @ fr # post \<and> list_all no_id pre \<and>
      poll_try fr = Inr (Some i)"
    by blast
next
  assume "\<exists>pre fr post. frs = pre @ fr # post \<and> list_all no_id pre \<and> poll_try fr = Inr (Some i)"
  then obtain pre fr post where f: "frs = pre @ fr # post" "list_all no_id pre"
      "poll_try fr = Inr (Some i)"
    by blast
  then have "\<not> no_id fr" by (simp add: not_no_id)
  with f(1,2) have "dropWhile no_id frs = fr # post"
    by (simp add: list_all_iff dropWhile_append3)
  with f(3) show "snd (pollActiveArticle ms frs) = Resolved i"
    by (simp add: pollActiveArticle_settles)
qed

lemma active_id_eq: "active_id x = Some i \<longleftrightarrow> x = Active_body (Some i)"
  by (cases x) auto

lemma poll_try_cases:
  "(poll_try fr = Inr (Some i) \<longleftrightarrow>
      (\<exists>req. fr = Fetch_response req \<and> status req < 400 \<and> json req = Json (Active_body (Some i)))) \<and>
   ((\<exists>e. poll_try fr = Inl e) \<longleftrightarrow>
      fr = Fetch_failed \<or> (\<exists>req. fr = Fetch_response req \<and> 400 \<le> status req))"
proof (cases fr)
  case Fetch_failed
  then show ?thesis by (simp add: poll_try_def)
next
  case (Fetch_response req)
  then show ?thesis
    by (cases "json req"; cases "status req < 400")
       (auto simp: poll_try_def active_id_eq)
qed

text \<open>
  Claim C7. Run against any sequence of fetch outcomes, \<^verbatim>\<open>pollActiveArticle\<close> is never
  rejected. A round ends the call only when its fetch is a response of status below 400
  whose body carries an \<^verbatim>\<open>id\<close>, and the call resolves to the id of the first such
  round; as long as there is none the call is pending, with its next request issued.
  Each earlier round leaves its request in the trace and, when it failed (no response,
  or a status of 400 or more), the log line and the wait of 3000 ms before the same
  request is issued again.
\<close>

theorem pollActiveArticle_absorbs_failures:
  "(\<forall>e. snd (pollActiveArticle ms frs) \<noteq> Rejected e) \<and>
   (snd (pollActiveArticle ms frs) = Resolved i \<longleftrightarrow>
      (\<exists>pre fr post. frs = pre @ fr # post \<and> list_all no_id pre \<and> poll_try fr = Inr (Some i))) \<and>
   (snd (pollActiveArticle ms frs) = Pending \<longleftrightarrow> list_all no_id frs) \<and>
   fst (pollActiveArticle ms frs) =
     concat (map (round_events ms) (takeWhile no_id frs)) @
     [Request (get_call (News_active_wait ms))] \<and>
   (poll_try fr = Inr (Some i) \<longleftrightarrow>
      (\<exists>req. fr = Fetch_response req \<and> status req < 400 \<and> json req = Json (Active_body (Some i)))) \<and>
   ((\<exists>e. poll_try fr = Inl e) \<longleftrightarrow>
      fr = Fetch_failed \<or> (\<exists>req. fr = Fetch_response req \<and> 400 \<le> status req)) \<and>
   ((\<exists>e. poll_try fr = Inl e) \<longrightarrow>
      no_id fr \<and>
      round_events ms fr =
        [Request (get_call (News_active_wait ms)),
         Console_error ''Error while polling for active article'', Sleep 3000])"
proof (intro conjI)
  show "\<forall>e. snd (pollActiveArticle ms frs) \<noteq> Rejected e"
    by (auto simp: pollActiveArticle_settles split: list.splits sum.splits option.splits)
  show "snd (pollActiveArticle ms frs) = Resolved i \<longleftrightarrow>
      (\<exists>pre fr post. frs = pre @ fr # post \<and> list_all no_id pre \<and> poll_try fr = Inr (Some i))"
    by (rule pollActiveArticle_resolved_iff)
  show "snd (pollActiveArticle ms frs) = Pending \<longleftrightarrow> list_all no_id frs"
  proof
    assume p: "snd (pollActiveArticle ms frs) = Pending"
    have "dropWhile no_id frs = []"
    proof (cases "dropWhile no_id frs")
      case Nil
      then show ?thesis .
    next
      case (Cons fr rest)
      then have "\<not> no_id fr" by (metis hd_dropWhile list.sel(1) list.distinct(1))
      then obtain j where "poll_try fr = Inr (Some j)" by (auto simp: not_no_id)
      with Cons p show ?thesis by (simp add: pollActiveArticle_settles)
    qed
    then show "list_all no_id frs"
      by (simp add: list_all_iff dropWhile_eq_Nil_conv)
  next
    assume "list_all no_id frs"
    then have d: "dropWhile no_id frs = []" by (simp add: list_all_iff dropWhile_eq_Nil_conv)
    show "snd (pollActiveArticle ms frs) = Pending"
      unfolding pollActiveArticle_settles d by simp
  qed
  show "fst (pollActiveArticle ms frs) =
     concat (map (round_events ms) (takeWhile no_id frs)) @
     [Request (get_call (News_active_wait ms))]"
    by (rule pollActiveArticle_events)
  show "poll_try fr = Inr (Some i) \<longleftrightarrow>
      (\<exists>req. fr = Fetch_response req \<and> status req < 400 \<and> json req = Json (Active_body (Some i)))"
    using poll_try_cases [of fr i] by blast
  show "(\<exists>e. poll_try fr = Inl e) \<longleftrightarrow>
      fr = Fetch_failed \<or> (\<exists>req. fr = Fetch_response req \<and> 400 \<le> status req)"
    using poll_try_cases [of fr i] by blast
  show "(\<exists>e. poll_try fr = Inl e) \<longrightarrow>
      no_id fr \<and>
      round_events ms fr =
        [Request (get_call (News_active_wait ms)),
         Console_error ''Error while polling for active article'', Sleep 3000]"
    by (auto simp: no_id_def round_events_def)
qed

theorem pollActiveArticle_witness:
  "snd (pollActiveArticle 295
      [Fetch_failed, Fetch_response \<lparr>status = 502, json = Unparsable\<rparr>,
       ok_response (Active_body None), ok_response (Active_body (Some ''7'')), Fetch_failed]) =
     Resolved ''7'' \<and>
   fst (pollActiveArticle 295
      [Fetch_failed, Fetch_response \<lparr>status = 502, json = Unparsable\<rparr>,
       ok_response (Active_body None), ok_response (Active_body (Some ''7'')), Fetch_failed]) =
     [Request (get_call (News_active_wait 295)),
      Console_error ''Error while polling for active article'', Sleep 3000,
      Request (get_call (News_active_wait 295)),
      Console_error ''Error while polling for active article'', Sleep 3000,
      Request (get_call (News_active_wait 295)),
      Request (get_call (News_active_wait 295))] \<and>
   poll_try Fetch_failed = Inl Network_failure \<and>
   no_id Fetch_failed \<and>
   round_events 295 Fetch_failed =
     [Request (get_call (News_active_wait 295)),
      Console_error ''Error while polling for active article'', Sleep 3000]"
proof -
  let ?pre = "[Fetch_failed, Fetch_response \<lparr>status = 502, json = Unparsable\<rparr>,
       ok_response (Active_body None)]"
  let ?frs = "[Fetch_failed, Fetch_response \<lparr>status = 502, json = Unparsable\<rparr>,
       ok_response (Active_body None), ok_response (Active_body (Some ''7'')), Fetch_failed]"
  note th = pollActiveArticle_absorbs_failures [of 295 ?frs "''7''" Fetch_failed]
  have p: "poll_try (ok_response (Active_body (Some ''7''))) = Inr (Some ''7'')"
    by (simp add: poll_try_def ok_response_def)
  have n: "list_all no_id ?pre"
    by (simp add: no_id_def poll_try_def ok_response_def)
  have "?frs = ?pre @ ok_response (Active_body (Some ''7'')) # [Fetch_failed]"
    by simp
  with p n have "\<exists>pre fr post. ?frs = pre @ fr # post \<and> list_all no_id pre \<and>
      poll_try fr = Inr (Some ''7'')"
    by blast
  with th have 1: "snd (pollActiveArticle 295 ?frs) = Resolved ''7''"
    by blast
  from th have "fst (pollActiveArticle 295 ?frs) =
     concat (map (round_events 295) (takeWhile no_id ?frs)) @
     [Request (get_call (News_active_wait 295))]"
    by blast
  then have 2: "fst (pollActiveArticle 295 ?frs) =
     [Request (get_call (News_active_wait 295)),
      Console_error ''Error while polling for active article'', Sleep 3000,
      Request (get_call (News_active_wait 295)),
      Console_error ''Error while polling for active article'', Sleep 3000,
      Request (get_call (News_active_wait 295)),
      Request (get_call (News_active_wait 295))]"
    by (simp add: no_id_def round_events_def poll_try_def ok_response_def)
  have f: "poll_try Fetch_failed = Inl Network_failure"
    by (simp add: poll_try_def)
  then have "\<exists>e. poll_try Fetch_failed = Inl e" by blast
  with th have 3: "no_id Fetch_failed"
    "round_events 295 Fetch_failed =
     [Request (get_call (News_active_wait 295)),
      Console_error ''Error while polling for active article'', Sleep 3000]"
    by blast+
  from 1 2 f 3 show ?thesis by (intro conjI)
qed

section \<open>Cache hits and stale timers: claim C9\<close>

lemma rootReducer_remove_absent:
  "n \<notin> set (notifications st) \<Longrightarrow> rootReducer st (RemoveNotification n) = st"
  by (simp add: rootReducer_remove del: rootReducer.simps)

text \<open>
  What holds of lookups. After a fetch by id has inserted an article, the next \<^verbatim>\<open>getArticle\<close> for
  that article's id and the next \<^verbatim>\<open>getArticleBySlug\<close> for its slug return that very
  article, issue no request and leave the cache as it is, whatever the network would
  answer; after a fetch by slug has inserted an article, so does the next
  \<^verbatim>\<open>getArticleBySlug\<close> for the requested slug. In any cache, a call that hits returns
  the article the slug map holds, with no request. And removing a notification that the
  queue does not hold returns the state unchanged, so that a timer firing after its
  notification was removed changes nothing in the store's state.
\<close>

lemma hit_after_insert_and_stale_removal:
  "(map_of (articlesIdSlugMap w) ident = None \<and> answer_article fr = Some a \<longrightarrow>
      (\<exists>b. snd (snd (getArticle pf ident fr w)) = Inr (Found b) \<and>
         getArticle pf (a_id b) fr' (fst (getArticle pf ident fr w)) =
           (fst (getArticle pf ident fr w), [], Inr (Found b)) \<and>
         getArticleBySlug pf (slug b) fr' (fst (getArticle pf ident fr w)) =
           (fst (getArticle pf ident fr w), [], Inr (Found b)))) \<and>
   (map_of (articlesCache w) slug_arg = None \<and> answer_article fr = Some a \<longrightarrow>
      (\<exists>b. snd (snd (getArticleBySlug pf slug_arg fr w)) = Inr (Found b) \<and>
         getArticleBySlug pf slug_arg fr' (fst (getArticleBySlug pf slug_arg fr w)) =
           (fst (getArticleBySlug pf slug_arg fr w), [], Inr (Found b)))) \<and>
   (map_of (articlesIdSlugMap w) ident = Some s \<and> map_of (articlesCache w) s = Some c \<longrightarrow>
      getArticle pf ident fr' w = (w, [], Inr (Found c))) \<and>
   (map_of (articlesCache w) slug_arg = Some c \<longrightarrow>
      getArticleBySlug pf slug_arg fr' w = (w, [], Inr (Found c))) \<and>
   (n \<notin> set (notifications st) \<longrightarrow> rootReducer st (RemoveNotification n) = st) \<and>
   (n \<notin> set (notifications (state v)) \<longrightarrow>
      state (timerFires (t, n) v) = state v \<and> state (removeNotification n v) = state v)"
proof (intro conjI impI)
  assume "map_of (articlesIdSlugMap w) ident = Some s \<and> map_of (articlesCache w) s = Some c"
  then show "getArticle pf ident fr' w = (w, [], Inr (Found c))"
    by (simp add: getArticle_def)
next
  assume "map_of (articlesCache w) slug_arg = Some c"
  then show "getArticleBySlug pf slug_arg fr' w = (w, [], Inr (Found c))"
    by (simp add: getArticleBySlug_def)
next
  assume "map_of (articlesIdSlugMap w) ident = None \<and> answer_article fr = Some a"
  then obtain b where b: "getArticle pf ident fr w =
       (w\<lparr>articlesCache := AList.update (slug b) b (articlesCache w),
          articlesIdSlugMap := AList.update (a_id b) (slug b) (articlesIdSlugMap w)\<rparr>,
        [get_call (News_id ident)], Inr (Found b))"
    using getArticle_inserts [of w ident fr a pf] by blast
  show "\<exists>b. snd (snd (getArticle pf ident fr w)) = Inr (Found b) \<and>
         getArticle pf (a_id b) fr' (fst (getArticle pf ident fr w)) =
           (fst (getArticle pf ident fr w), [], Inr (Found b)) \<and>
         getArticleBySlug pf (slug b) fr' (fst (getArticle pf ident fr w)) =
           (fst (getArticle pf ident fr w), [], Inr (Found b))"
    unfolding b by (simp add: getArticle_def getArticleBySlug_def update_conv')
next
  assume "map_of (articlesCache w) slug_arg = None \<and> answer_article fr = Some a"
  then obtain b where b: "getArticleBySlug pf slug_arg fr w =
       (w\<lparr>articlesCache := AList.update slug_arg b (articlesCache w),
          articlesIdSlugMap := AList.update (a_id b) (slug b) (articlesIdSlugMap w)\<rparr>,
        [get_call (News_slug slug_arg)], Inr (Found b))"
    using getArticleBySlug_inserts [of w slug_arg fr a pf] by blast
  show "\<exists>b. snd (snd (getArticleBySlug pf slug_arg fr w)) = Inr (Found b) \<and>
         getArticleBySlug pf slug_arg fr' (fst (getArticleBySlug pf slug_arg fr w)) =
           (fst (getArticleBySlug pf slug_arg fr w), [], Inr (Found b))"
    unfolding b by (simp add: getArticleBySlug_def update_conv')
next
  assume "n \<notin> set (notifications st)"
  then show "rootReducer st (RemoveNotification n) = st"
    by (rule rootReducer_remove_absent)
next
  assume a: "n \<notin> set (notifications (state v))"
  then show "state (timerFires (t, n) v) = state v"
    by (simp add: state_timerFires rootReducer_remove_absent del: rootReducer.simps)
  from a show "state (removeNotification n v) = state v"
    by (simp add: removeNotification_def dispatch_def rootReducer_remove_absent
        del: rootReducer.simps)
qed

text \<open>
  Claim C9 against the code. On the empty cache, \<^verbatim>\<open>getArticleBySlug("x")\<close> answered
  with the article of id 1 and slug a inserts that article. A following
  \<^verbatim>\<open>getArticle("1")\<close> hits the id map, finds no entry under the indexed slug a and
  resolves to \<^verbatim>\<open>undefined\<close>, not to the inserted article; a following
  \<^verbatim>\<open>getArticleBySlug("a")\<close> misses and issues a request. The article sits under the
  requested slug (line 207) while its id is indexed under its own slug (line 208).
  Removing a notification that the queue does not hold leaves the state as it is.
\<close>

theorem lookup_by_id_after_insert_by_slug:
  "fst (getArticleBySlug platform0 ''x'' (ok_response (With_id article_a)) empty_cache) = cache_x \<and>
   snd (snd (getArticleBySlug platform0 ''x'' (ok_response (With_id article_a)) empty_cache)) =
     Inr (Found article_a) \<and>
   a_id article_a = ''1'' \<and> slug article_a = ''a'' \<and>
   getArticle platform0 ''1'' Fetch_failed cache_x = (cache_x, [], Inr Undefined) \<and>
   getArticleBySlug platform0 ''a'' Fetch_failed cache_x =
     (cache_x, [get_call (News_slug ''a'')], Inl Network_failure) \<and>
   getArticleBySlug platform0 ''x'' Fetch_failed cache_x = (cache_x, [], Inr (Found article_a)) \<and>
   rootReducer (state (store_of [form_notification])) (RemoveNotification text_notification) =
     state (store_of [form_notification])"
proof -
  have pa: "processArticle platform0 (Raw article_a) = Inr article_a"
    by (simp add: processArticle.simps article_a_def)
  have ia: "a_id article_a = ''1''" "slug article_a = ''a''"
    by (simp_all add: article_a_def)
  have 1: "getArticleBySlug platform0 ''x'' (ok_response (With_id article_a)) empty_cache =
     (cache_x, [get_call (News_slug ''x'')], Inr (Found article_a))"
    by (simp add: getArticleBySlug_def empty_cache_def ok_response_def pa ia cache_x_def)
  have 2: "getArticle platform0 ''1'' Fetch_failed cache_x = (cache_x, [], Inr Undefined)"
    by (simp add: getArticle_def) (simp add: cache_x_def)
  have 3: "getArticleBySlug platform0 ''a'' Fetch_failed cache_x =
     (cache_x, [get_call (News_slug ''a'')], Inl Network_failure)"
    by (simp add: getArticleBySlug_def) (simp add: cache_x_def)
  have 4: "getArticleBySlug platform0 ''x'' Fetch_failed cache_x =
     (cache_x, [], Inr (Found article_a))"
    by (simp add: getArticleBySlug_def) (simp add: cache_x_def)
  have "text_notification \<noteq> form_notification"
    by (simp add: text_notification_def form_notification_def)
  then have "text_notification \<notin> set (notifications (state (store_of [form_notification])))"
    by (simp add: store_of_def)
  then have 5: "rootReducer (state (store_of [form_notification]))
      (RemoveNotification text_notification) = state (store_of [form_notification])"
    by (rule rootReducer_remove_absent)
  from 1 ia 2 3 4 5 show ?thesis by simp
qed

end
